theory Spec2Isabelle
  imports Main
begin

section \<open>The default module port of JerryScript (jerry-port/default/default-module.c)\<close>

text \<open>
  A shallow embedding of \<^verbatim>\<open>default-module.c\<close>: the path helpers, the module manager
  (a singly linked list of module descriptors kept in malloc'ed memory), the resolver
  \<^verbatim>\<open>jerry_port_module_resolve\<close> and the release function \<^verbatim>\<open>jerry_port_module_release\<close>.
  Pointers are addresses into explicit stores, \<^verbatim>\<open>NULL\<close> is \<open>None\<close>, and a dereference of
  \<^verbatim>\<open>NULL\<close> or of freed memory is a fault value of the model.
\<close>

subsection \<open>C strings\<close>

text \<open>
  A character buffer is the list of the bytes written to it. The C string functions
  (\<^verbatim>\<open>strlen\<close>, \<^verbatim>\<open>strcmp\<close>, and every callee taking a \<^verbatim>\<open>const char *\<close>) see it up to the first
  zero byte.
\<close>

definition c_str :: "string \<Rightarrow> string" where
  "c_str bs = takeWhile (\<lambda>c. c \<noteq> CHR 0x00) bs"

definition strlen :: "string \<Rightarrow> nat" where
  "strlen bs = length (c_str bs)"

definition strcmp :: "string \<Rightarrow> string \<Rightarrow> bool" where
  \<comment> \<open>\<^verbatim>\<open>strcmp (a, b) == 0\<close>\<close>
  "strcmp a b = (c_str a = c_str b)"

subsection \<open>\<^verbatim>\<open>jerry_port_get_directory_end\<close>\<close>

text \<open>
  The separator test of the loop body: \<^verbatim>\<open>'/'\<close>, and under \<^verbatim>\<open>_WIN32\<close> also the backslash
  (byte \<open>0x5C\<close>).
\<close>

definition is_separator :: "bool \<Rightarrow> char \<Rightarrow> bool" where
  "is_separator win32 c = (c = CHR ''/'' \<or> (win32 \<and> c = CHR 0x5C))"

text \<open>
  The \<^verbatim>\<open>while (end_p > path_p)\<close> loop; the counter is \<^verbatim>\<open>end_p - path_p\<close>, so \<^verbatim>\<open>end_p[-1]\<close> is
  the byte at index \<open>e\<close> when the counter is \<open>Suc e\<close>.
\<close>

fun directory_end_loop :: "bool \<Rightarrow> string \<Rightarrow> nat \<Rightarrow> nat" where
  "directory_end_loop win32 path_p 0 = 0"
| "directory_end_loop win32 path_p (Suc e) =
     (if is_separator win32 (path_p ! e) then Suc e
      else directory_end_loop win32 path_p e)"

definition jerry_port_get_directory_end :: "bool \<Rightarrow> string \<Rightarrow> nat" where
  "jerry_port_get_directory_end win32 path_p =
     directory_end_loop win32 path_p (strlen path_p)"

subsection \<open>Engine values\<close>

text \<open>
  Modelled from the spec: the engine's \<^verbatim>\<open>jerry_value_t\<close> and its primitives
  (\<^verbatim>\<open>jerryscript-core.h\<close> is not part of the sources). The spec's sections 3 and 6 ask of a
  value only its kind, identity comparison and reference counting, so a value is
  tagged with its kind; an object is its identity, and the payload of a number plays no role
  here.
\<close>

datatype jerry_error_t =
    JERRY_ERROR_COMMON | JERRY_ERROR_EVAL | JERRY_ERROR_RANGE | JERRY_ERROR_REFERENCE
  | JERRY_ERROR_SYNTAX | JERRY_ERROR_TYPE | JERRY_ERROR_URI

datatype jerry_value_t =
    JS_undefined
  | JS_null
  | JS_boolean bool
  | JS_number int
  | JS_string string
  | JS_object nat
  | JS_error jerry_error_t string

text \<open>Modelled from the spec: \<^verbatim>\<open>jerry_value_is_object\<close>, true of objects only.\<close>

fun jerry_value_is_object :: "jerry_value_t \<Rightarrow> bool" where
  "jerry_value_is_object (JS_object n) = True"
| "jerry_value_is_object v = False"

text \<open>Modelled from the spec: \<^verbatim>\<open>jerry_value_is_error\<close>, true of error values only.\<close>

fun jerry_value_is_error :: "jerry_value_t \<Rightarrow> bool" where
  "jerry_value_is_error (JS_error t msg) = True"
| "jerry_value_is_error v = False"

text \<open>
  Modelled from the spec: \<^verbatim>\<open>jerry_get_utf8_string_size\<close> and
  \<^verbatim>\<open>jerry_string_to_utf8_char_buffer\<close>, the bytes of a string value (none for a value that
  is not a string).
\<close>

fun utf8_string :: "jerry_value_t \<Rightarrow> string" where
  "utf8_string (JS_string s) = s"
| "utf8_string v = []"

definition jerry_get_utf8_string_size :: "jerry_value_t \<Rightarrow> nat" where
  "jerry_get_utf8_string_size v = length (utf8_string v)"

subsection \<open>Memory and the state of the port\<close>

type_synonym addr = nat

text \<open>\<^verbatim>\<open>struct jerry_port_module_t\<close>; a pointer is an address, \<^verbatim>\<open>NULL\<close> is \<open>None\<close>.\<close>

record jerry_port_module_t =
  next_p :: "addr option"
  path_p :: addr
  base_path_length :: nat
  realm :: jerry_value_t
  module :: jerry_value_t

text \<open>What the resolver asks of its collaborators, in call order.\<close>

datatype event =
    Ev_read_source string
  | Ev_parse string string

text \<open>
  The state: the module manager (\<^verbatim>\<open>module_head_p\<close>, the only field of
  \<^verbatim>\<open>jerry_port_module_manager_t\<close>), the live module descriptors and the live character
  buffers of the C heap, the next address \<^verbatim>\<open>malloc\<close> hands out, the reference counts and
  native pointers the engine keeps for values, and the trace of collaborator calls.
\<close>

record world =
  module_head_p :: "addr option"
  modules :: "addr \<rightharpoonup> jerry_port_module_t"
  buffers :: "addr \<rightharpoonup> string"
  brk :: addr
  refs :: "jerry_value_t \<Rightarrow> int"
  native :: "jerry_value_t \<rightharpoonup> addr"
  trace :: "event list"

datatype st_mode = S_IFDIR | S_IFREG

text \<open>
  What the platform and the engine answer during one call: whether each \<^verbatim>\<open>malloc\<close> of the
  file succeeds (one flag per call site, none of them is in a loop), the C library calls of
  \<^verbatim>\<open>jerry_port_get_cwd\<close> and \<^verbatim>\<open>jerry_port_read_source\<close>, the path arithmetic of
  \<^verbatim>\<open>cwalk.h\<close>, the current realm and the parser. \<open>defined_WIN32\<close> is the
  compile-time \<^verbatim>\<open>defined (_WIN32)\<close>.
\<close>

record port_env =
  defined_WIN32 :: bool
  malloc_in_path_p :: bool
  malloc_in_path_pz :: bool
  malloc_base_path_pz :: bool
  getcwd :: "string option"
  malloc_out_cwd_p :: bool
  cwk_path_get_absolute :: "string \<Rightarrow> string \<Rightarrow> string"
  malloc_path_p :: bool
  stat :: "string \<Rightarrow> st_mode option"
  fopen :: "string \<Rightarrow> bool"
  ftell :: "string \<Rightarrow> nat"
  malloc_buffer_p :: bool
  fread :: "string \<Rightarrow> nat \<Rightarrow> string"
  global_object :: jerry_value_t
  parse :: "string \<Rightarrow> string \<Rightarrow> jerry_value_t"
  malloc_module_p :: bool

text \<open>
  The undefined behaviours of the C that the model keeps apart from a return: a dereference
  of \<^verbatim>\<open>NULL\<close>, and a read through a pointer to memory that is not live. \<^verbatim>\<open>malloc\<close> hands
  out the addresses in increasing order and none of them twice, so a freed address stays
  dead and a read through a dangling pointer is always the second fault.
\<close>

datatype fault = Null_dereference | Invalid_read

definition malloc :: "bool \<Rightarrow> world \<Rightarrow> addr option \<times> world" where
  "malloc ok w =
     (if ok then (Some (brk w), w\<lparr>buffers := (buffers w)(brk w \<mapsto> []), brk := Suc (brk w)\<rparr>)
      else (None, w))"

definition store :: "addr \<Rightarrow> string \<Rightarrow> world \<Rightarrow> world" where
  "store a bs w = w\<lparr>buffers := (buffers w)(a \<mapsto> bs)\<rparr>"

definition free :: "addr \<Rightarrow> world \<Rightarrow> world" where
  "free a w = w\<lparr>buffers := (buffers w)(a := None)\<rparr>"

definition load :: "addr option \<Rightarrow> world \<Rightarrow> fault + string" where
  "load p w =
     (case p of
        None \<Rightarrow> Inl Null_dereference
      | Some a \<Rightarrow> (case buffers w a of None \<Rightarrow> Inl Invalid_read | Some bs \<Rightarrow> Inr bs))"

text \<open>
  Modelled from the spec: \<^verbatim>\<open>jerry_acquire_value\<close> and \<^verbatim>\<open>jerry_release_value\<close>, the
  counted references of section 6; acquiring returns the same value.
\<close>

definition jerry_acquire_value :: "jerry_value_t \<Rightarrow> world \<Rightarrow> jerry_value_t \<times> world" where
  "jerry_acquire_value v w = (v, w\<lparr>refs := (refs w)(v := refs w v + 1)\<rparr>)"

definition jerry_release_value :: "jerry_value_t \<Rightarrow> world \<Rightarrow> world" where
  "jerry_release_value v w = w\<lparr>refs := (refs w)(v := refs w v - 1)\<rparr>"

text \<open>
  Modelled from the spec: \<^verbatim>\<open>jerry_create_error\<close>, \<^verbatim>\<open>jerry_create_undefined\<close>,
  \<^verbatim>\<open>jerry_get_global_object\<close> and \<^verbatim>\<open>jerry_parse\<close> hand a value to the caller together
  with one reference to it; the parser is the collaborator \<open>parse_module (source_bytes,
  resource_name)\<close> of section 6.
\<close>

definition jerry_create_error :: "jerry_error_t \<Rightarrow> string \<Rightarrow> world \<Rightarrow> jerry_value_t \<times> world" where
  "jerry_create_error t msg w = jerry_acquire_value (JS_error t msg) w"

definition jerry_create_undefined :: "world \<Rightarrow> jerry_value_t \<times> world" where
  "jerry_create_undefined w = jerry_acquire_value JS_undefined w"

definition jerry_get_global_object :: "port_env \<Rightarrow> world \<Rightarrow> jerry_value_t \<times> world" where
  "jerry_get_global_object env w = jerry_acquire_value (global_object env) w"

definition jerry_parse :: "port_env \<Rightarrow> string \<Rightarrow> string \<Rightarrow> world \<Rightarrow> jerry_value_t \<times> world" where
  "jerry_parse env source resource_name w =
     jerry_acquire_value (parse env source resource_name)
       (w\<lparr>trace := trace w @ [Ev_parse source resource_name]\<rparr>)"

text \<open>
  Modelled from the spec: \<^verbatim>\<open>jerry_set_object_native_pointer\<close> and
  \<^verbatim>\<open>jerry_get_object_native_pointer\<close>, the back-reference \<open>attach\<close> and \<open>get_attached\<close>
  of section 6.
\<close>

definition jerry_set_object_native_pointer :: "jerry_value_t \<Rightarrow> addr \<Rightarrow> world \<Rightarrow> world" where
  "jerry_set_object_native_pointer v p w = w\<lparr>native := (native w)(v \<mapsto> p)\<rparr>"

definition jerry_get_object_native_pointer :: "jerry_value_t \<Rightarrow> world \<Rightarrow> addr option" where
  "jerry_get_object_native_pointer v w = native w v"

subsection \<open>\<^verbatim>\<open>jerry_port_get_cwd\<close>, \<^verbatim>\<open>jerry_port_read_source\<close>, \<^verbatim>\<open>jerry_port_release_source\<close>\<close>

text \<open>
  \<^verbatim>\<open>jerry_port_get_cwd (NULL, 0)\<close>, the only way this file calls it: \<^verbatim>\<open>getcwd (NULL, 0)\<close>
  returns a buffer of its own or \<^verbatim>\<open>NULL\<close>, and in the second case the two bytes of
  \<^verbatim>\<open>"/"\<close> are allocated.
\<close>

definition jerry_port_get_cwd :: "port_env \<Rightarrow> world \<Rightarrow> addr option \<times> world" where
  "jerry_port_get_cwd env w =
     (case getcwd env of
        Some cwd_p \<Rightarrow> (case malloc True w of (out_cwd_p, w1) \<Rightarrow> (out_cwd_p, store (brk w) cwd_p w1))
      | None \<Rightarrow>
          (case malloc (malloc_out_cwd_p env) w of
             (None, w1) \<Rightarrow> (None, w1)
           | (Some out_cwd_p, w1) \<Rightarrow> (Some out_cwd_p, store out_cwd_p ''/'' w1)))"

text \<open>
  \<^verbatim>\<open>jerry_port_read_source\<close>; the call is recorded in the trace, the messages of
  \<^verbatim>\<open>jerry_port_log\<close> are not.
\<close>

definition jerry_port_read_source :: "port_env \<Rightarrow> string \<Rightarrow> world \<Rightarrow> (addr \<times> nat) option \<times> world" where
  "jerry_port_read_source env file_name_p w0 =
     (let w = w0\<lparr>trace := trace w0 @ [Ev_read_source file_name_p]\<rparr> in
      if stat env file_name_p = None \<or> stat env file_name_p = Some S_IFDIR then (None, w)
      else if \<not> fopen env file_name_p then (None, w)
      else
        let file_size = ftell env file_name_p in
        (case malloc (malloc_buffer_p env) w of
           (None, w1) \<Rightarrow> (None, w1)
         | (Some buffer_p, w1) \<Rightarrow>
             let bs = fread env file_name_p file_size;
                 bytes_read = length bs;
                 w2 = store buffer_p bs w1
             in if bytes_read \<noteq> file_size then (None, free buffer_p w2)
                else (Some (buffer_p, bytes_read), w2)))"

definition jerry_port_release_source :: "addr \<Rightarrow> world \<Rightarrow> world" where
  "jerry_port_release_source buffer_p w = free buffer_p w"

subsection \<open>\<^verbatim>\<open>jerry_port_normalize_path\<close>\<close>

text \<open>
  The parameter \<^verbatim>\<open>base_path_length\<close> is written \<open>base_path_length'\<close>, the unprimed name
  being the field of the module descriptor. The two calls of \<^verbatim>\<open>cwk_path_get_absolute\<close>
  compute the same path, first for its length and then into the buffer.
\<close>

definition jerry_port_normalize_path ::
  "port_env \<Rightarrow> addr option \<Rightarrow> nat \<Rightarrow> addr option \<Rightarrow> nat \<Rightarrow> world \<Rightarrow> fault + addr option \<times> world" where
  "jerry_port_normalize_path env in_path_p in_path_length base_path_p base_path_length' w =
     (case malloc (malloc_in_path_pz env) w of
        (None, w1) \<Rightarrow> Inr (None, w1)
      | (Some in_path_pz, w1) \<Rightarrow>
          (case load in_path_p w1 of
             Inl f \<Rightarrow> Inl f
           | Inr in_path \<Rightarrow>
               let w2 = store in_path_pz (take in_path_length in_path) w1 in
               (case (if base_path_length' > 0 then
                        (case malloc (malloc_base_path_pz env) w2 of
                           (None, w3) \<Rightarrow> Inr (None, w3)
                         | (Some p, w3) \<Rightarrow>
                             (case load base_path_p w3 of
                                Inl f \<Rightarrow> Inl f
                              | Inr base_path \<Rightarrow>
                                  Inr (Some p, store p (take base_path_length' base_path) w3)))
                      else Inr (jerry_port_get_cwd env w2)) of
                  Inl f \<Rightarrow> Inl f
                | Inr (None, w4) \<Rightarrow> Inr (None, free in_path_pz w4)
                | Inr (Some base_path_pz, w4) \<Rightarrow>
                    (case load (Some base_path_pz) w4 of
                       Inl f \<Rightarrow> Inl f
                     | Inr base \<Rightarrow>
                         let path = cwk_path_get_absolute env (c_str base)
                                      (c_str (take in_path_length in_path));
                             path_p_len = length path
                         in (case malloc (malloc_path_p env) w4 of
                               (None, w5) \<Rightarrow> Inr (None, free in_path_pz (free base_path_pz w5))
                             | (Some p, w5) \<Rightarrow>
                                 Inr (Some p, free in_path_pz (free base_path_pz
                                        (store p (take path_p_len path) w5))))))))"

subsection \<open>The module manager: \<^verbatim>\<open>jerry_port_module_free\<close>\<close>

definition free_module :: "addr \<Rightarrow> world \<Rightarrow> world" where
  \<comment> \<open>\<^verbatim>\<open>free (module_p)\<close>\<close>
  "free_module m w = w\<lparr>modules := (modules w)(m := None)\<rparr>"

definition set_next_p :: "addr \<Rightarrow> addr option \<Rightarrow> world \<Rightarrow> fault + world" where
  \<comment> \<open>\<^verbatim>\<open>prev_p->next_p = next_p\<close>\<close>
  "set_next_p p n w =
     (case modules w p of
        None \<Rightarrow> Inl Invalid_read
      | Some r \<Rightarrow> Inr (w\<lparr>modules := (modules w)(p \<mapsto> r\<lparr>next_p := n\<rparr>)\<rparr>))"

text \<open>
  The \<^verbatim>\<open>while (module_p != NULL)\<close> loop of \<^verbatim>\<open>jerry_port_module_free\<close>, with its trailing
  \<^verbatim>\<open>prev_p\<close>. On a cyclic or dangling chain the C loop does not return or reads freed
  memory: the first is the value \<open>None\<close>, the second a fault.
\<close>

partial_function (option) module_free_loop ::
  "bool \<Rightarrow> jerry_value_t \<Rightarrow> addr option \<Rightarrow> addr option \<Rightarrow> world \<Rightarrow> (fault + world) option" where
  "module_free_loop release_all realm' module_p prev_p w =
     (case module_p of
        None \<Rightarrow> Some (Inr w)
      | Some m \<Rightarrow>
          (case modules w m of
             None \<Rightarrow> Some (Inl Invalid_read)
           | Some r \<Rightarrow>
               if release_all \<or> realm r = realm' then
                 (case prev_p of
                    None \<Rightarrow>
                      module_free_loop release_all realm' (next_p r) prev_p
                        ((free_module m (jerry_release_value (module r)
                            (jerry_release_value (realm r) (free (path_p r) w))))
                          \<lparr>module_head_p := next_p r\<rparr>)
                  | Some p \<Rightarrow>
                      (case set_next_p p (next_p r)
                              (free_module m (jerry_release_value (module r)
                                 (jerry_release_value (realm r) (free (path_p r) w)))) of
                         Inl f \<Rightarrow> Some (Inl f)
                       | Inr w' \<Rightarrow> module_free_loop release_all realm' (next_p r) prev_p w'))
               else module_free_loop release_all realm' (next_p r) (Some m) w))"

declare module_free_loop.simps [code]

definition jerry_port_module_free :: "jerry_value_t \<Rightarrow> world \<Rightarrow> (fault + world) option" where
  "jerry_port_module_free realm' w =
     (let release_all = \<not> jerry_value_is_object realm'
      in module_free_loop release_all realm' (module_head_p w) None w)"

definition jerry_port_module_manager_init :: "world \<Rightarrow> world" where
  "jerry_port_module_manager_init w = w\<lparr>module_head_p := None\<rparr>"

definition jerry_port_module_manager_deinit :: "world \<Rightarrow> (fault + world) option" where
  "jerry_port_module_manager_deinit w =
     (case jerry_create_undefined w of
        (undef, w1) \<Rightarrow>
          (case jerry_port_module_free undef w1 of
             None \<Rightarrow> None
           | Some (Inl f) \<Rightarrow> Some (Inl f)
           | Some (Inr w2) \<Rightarrow> Some (Inr (jerry_release_value undef w2))))"

text \<open>
  \<^verbatim>\<open>jerry_port_module_release\<close>; \<^verbatim>\<open>jerry_get_context_data\<close> returns the manager, which is
  part of the state here.
\<close>

definition jerry_port_module_release :: "jerry_value_t \<Rightarrow> world \<Rightarrow> (fault + world) option" where
  "jerry_port_module_release realm' w = jerry_port_module_free realm' w"

subsection \<open>\<^verbatim>\<open>jerry_port_module_resolve\<close>\<close>

text \<open>Lines 416 to 420: the base path of the referrer, \<^verbatim>\<open>NULL\<close> and 0 without a descriptor.\<close>

definition resolve_base_path :: "jerry_value_t \<Rightarrow> world \<Rightarrow> fault + addr option \<times> nat" where
  "resolve_base_path referrer w =
     (case jerry_get_object_native_pointer referrer w of
        None \<Rightarrow> Inr (None, 0)
      | Some module_p \<Rightarrow>
          (case modules w module_p of
             None \<Rightarrow> Inl Invalid_read
           | Some r \<Rightarrow> Inr (Some (path_p r), base_path_length r)))"

text \<open>Lines 439 to 453: the scan of the list for the realm and the path.\<close>

partial_function (option) module_lookup_loop ::
  "jerry_value_t \<Rightarrow> string \<Rightarrow> addr option \<Rightarrow> world \<Rightarrow> (fault + addr option) option" where
  "module_lookup_loop realm' path module_p w =
     (case module_p of
        None \<Rightarrow> Some (Inr None)
      | Some m \<Rightarrow>
          (case modules w m of
             None \<Rightarrow> Some (Inl Invalid_read)
           | Some r \<Rightarrow>
               if realm r = realm' then
                 (case load (Some (path_p r)) w of
                    Inl f \<Rightarrow> Some (Inl f)
                  | Inr s \<Rightarrow>
                      if strcmp s path then Some (Inr (Some m))
                      else module_lookup_loop realm' path (next_p r) w)
               else module_lookup_loop realm' path (next_p r) w))"

declare module_lookup_loop.simps [code]

text \<open>
  Lines 455 to 498, after a miss: read, parse, and on success build the descriptor and
  push it at the head of the list.
\<close>

definition resolve_load ::
  "port_env \<Rightarrow> addr \<Rightarrow> nat \<Rightarrow> addr \<Rightarrow> jerry_value_t \<Rightarrow> world \<Rightarrow> fault + jerry_value_t \<times> world" where
  "resolve_load env in_path_p in_path_length path_p' realm' w =
     (case load (Some path_p') w of
        Inl f \<Rightarrow> Inl f
      | Inr path \<Rightarrow>
          (case jerry_port_read_source env (c_str path) w of
             (None, w1) \<Rightarrow>
               Inr (jerry_create_error JERRY_ERROR_SYNTAX ''Module file not found''
                      (jerry_release_value realm' (free in_path_p (free path_p' w1))))
           | (Some (source_p, source_size), w1) \<Rightarrow>
               (case load (Some source_p) w1 of
                  Inl f \<Rightarrow> Inl f
                | Inr source \<Rightarrow>
                    (case load (Some in_path_p) w1 of
                       Inl f \<Rightarrow> Inl f
                     | Inr in_path \<Rightarrow>
                         (case jerry_parse env (take source_size source)
                                 (take in_path_length in_path) w1 of
                            (ret_value, w2) \<Rightarrow>
                              let w3 = free in_path_p (jerry_port_release_source source_p w2) in
                              if jerry_value_is_error ret_value
                              then Inr (ret_value, jerry_release_value realm' (free path_p' w3))
                              else if \<not> malloc_module_p env then Inl Null_dereference
                              else
                                (case jerry_acquire_value ret_value w3 of
                                   (module', w4) \<Rightarrow>
                                     let module_p = brk w4;
                                         r = \<lparr>next_p = module_head_p w4,
                                              path_p = path_p',
                                              base_path_length =
                                                jerry_port_get_directory_end (defined_WIN32 env) path,
                                              realm = realm',
                                              module = module'\<rparr>;
                                         w5 = w4\<lparr>modules := (modules w4)(module_p \<mapsto> r),
                                                 brk := Suc (brk w4)\<rparr>;
                                         w6 = jerry_set_object_native_pointer ret_value module_p w5
                                     in Inr (ret_value, w6\<lparr>module_head_p := Some module_p\<rparr>)))))))"

text \<open>
  Lines 434 to 453: the realm is the current global object; the scan of the list, and on a
  hit the release of the temporaries and a new reference to the cached module.
\<close>

definition resolve_lookup ::
  "port_env \<Rightarrow> addr \<Rightarrow> nat \<Rightarrow> addr \<Rightarrow> world \<Rightarrow> (fault + jerry_value_t \<times> world) option" where
  "resolve_lookup env in_path_p in_path_length path_p' w =
     (case jerry_get_global_object env w of
        (realm', w1) \<Rightarrow>
          (case load (Some path_p') w1 of
             Inl f \<Rightarrow> Some (Inl f)
           | Inr path \<Rightarrow>
               (case module_lookup_loop realm' path (module_head_p w1) w1 of
                  None \<Rightarrow> None
                | Some (Inl f) \<Rightarrow> Some (Inl f)
                | Some (Inr (Some module_p)) \<Rightarrow>
                    (case modules w1 module_p of
                       None \<Rightarrow> Some (Inl Invalid_read)
                     | Some r \<Rightarrow>
                         Some (Inr (jerry_acquire_value (module r)
                           (jerry_release_value realm'
                              (free in_path_p (free path_p' w1))))))
                | Some (Inr None) \<Rightarrow>
                    Some (resolve_load env in_path_p in_path_length path_p' realm' w1))))"

text \<open>
  The resolver, lines 405 to 432 and then the two parts above; \<^verbatim>\<open>void *user_p\<close> is a
  pointer like any other. \<open>None\<close> is a scan of the list that does not return; \<open>Inl\<close> is a
  dereference of \<^verbatim>\<open>NULL\<close> or of freed memory; \<open>Inr\<close> is the returned value and the state
  after the call.
\<close>

definition jerry_port_module_resolve ::
  "port_env \<Rightarrow> jerry_value_t \<Rightarrow> jerry_value_t \<Rightarrow> addr option \<Rightarrow> world
     \<Rightarrow> (fault + jerry_value_t \<times> world) option" where
  "jerry_port_module_resolve env specifier referrer user_p w =
     (case resolve_base_path referrer w of
        Inl f \<Rightarrow> Some (Inl f)
      | Inr (base_path_p, base_path_length') \<Rightarrow>
          let in_path_length = jerry_get_utf8_string_size specifier in
          (case malloc (malloc_in_path_p env) w of
             (None, w1) \<Rightarrow> Some (Inl Null_dereference)
           | (Some in_path_p, w1) \<Rightarrow>
               (case jerry_port_normalize_path env (Some in_path_p) in_path_length
                       base_path_p base_path_length'
                       (store in_path_p (utf8_string specifier) w1) of
                  Inl f \<Rightarrow> Some (Inl f)
                | Inr (None, w2) \<Rightarrow>
                    Some (Inr (jerry_create_error JERRY_ERROR_COMMON ''Out of memory'' w2))
                | Inr (Some path_p', w2) \<Rightarrow>
                    resolve_lookup env in_path_p in_path_length path_p' w2)))"

subsection \<open>The chain of descriptors, the registry and the reachable states\<close>

text \<open>
  \<open>module_list h p as\<close>: following \<^verbatim>\<open>next_p\<close> from \<open>p\<close> in the store \<open>h\<close> visits exactly the
  live descriptors at the addresses \<open>as\<close> and ends in \<^verbatim>\<open>NULL\<close>.
\<close>

fun module_list :: "(addr \<rightharpoonup> jerry_port_module_t) \<Rightarrow> addr option \<Rightarrow> addr list \<Rightarrow> bool" where
  "module_list h p [] = (p = None)"
| "module_list h p (a # as) =
     (p = Some a \<and> (case h a of None \<Rightarrow> False | Some r \<Rightarrow> module_list h (next_p r) as))"

definition registry :: "world \<Rightarrow> addr list \<Rightarrow> bool" where
  "registry w as = module_list (modules w) (module_head_p w) as"

text \<open>The descriptor at \<open>a\<close> is the record of realm \<open>C\<close> and path \<open>P\<close>, as the scan compares them.\<close>

definition is_record_for :: "world \<Rightarrow> jerry_value_t \<Rightarrow> string \<Rightarrow> addr \<Rightarrow> bool" where
  "is_record_for w C P a =
     (case modules w a of
        None \<Rightarrow> False
      | Some r \<Rightarrow>
          realm r = C \<and> (case buffers w (path_p r) of None \<Rightarrow> False | Some s \<Rightarrow> strcmp s P))"

text \<open>
  The registry is well formed: the chain \<open>as\<close> starts at the head, every descriptor owns a
  live path buffer of its own, every live descriptor is in the chain, and \<^verbatim>\<open>malloc\<close> has
  handed out every live address.
\<close>

definition owns_path :: "world \<Rightarrow> addr \<Rightarrow> bool" where
  "owns_path w a = (case modules w a of None \<Rightarrow> False | Some r \<Rightarrow> buffers w (path_p r) \<noteq> None)"

definition registry_ok :: "world \<Rightarrow> addr list \<Rightarrow> bool" where
  "registry_ok w as =
     (registry w as
      \<and> list_all (owns_path w) as
      \<and> distinct (map (\<lambda>a. map_option path_p (modules w a)) as)
      \<and> dom (modules w) \<subseteq> set as
      \<and> (\<forall>a. a \<in> dom (modules w) \<or> a \<in> dom (buffers w) \<longrightarrow> a < brk w))"

definition registry_unique :: "world \<Rightarrow> addr list \<Rightarrow> bool" where
  "registry_unique w as = (\<forall>C P. length (filter (is_record_for w C P) as) \<le> 1)"

text \<open>What a descriptor holds besides its link.\<close>

definition payload :: "jerry_port_module_t \<Rightarrow> addr \<times> nat \<times> jerry_value_t \<times> jerry_value_t" where
  "payload r = (path_p r, base_path_length r, realm r, module r)"

text \<open>The test of line 344 on the descriptor at \<open>a\<close>.\<close>

definition released :: "bool \<Rightarrow> jerry_value_t \<Rightarrow> world \<Rightarrow> addr \<Rightarrow> bool" where
  "released release_all realm' w a =
     (case modules w a of None \<Rightarrow> False | Some r \<Rightarrow> release_all \<or> realm r = realm')"

text \<open>The number of references to \<open>v\<close> that the descriptors at \<open>as\<close> hold.\<close>

definition refs_held :: "world \<Rightarrow> addr list \<Rightarrow> jerry_value_t \<Rightarrow> int" where
  "refs_held w as v =
     (\<Sum>a\<leftarrow>as. case modules w a of
                None \<Rightarrow> 0
              | Some r \<Rightarrow> (if realm r = v then 1 else 0) + (if module r = v then 1 else 0))"

text \<open>
  What the loop of \<^verbatim>\<open>jerry_port_module_free\<close> has done to the state \<open>w\<close> when it has kept
  the descriptors \<open>ks\<close> and gone through \<open>rest\<close>: the chain holds the descriptors it kept,
  the released ones and their path buffers are freed, one reference to the realm and one to
  the module of each are given back, and nothing else has changed but links.
\<close>

definition free_post ::
  "bool \<Rightarrow> jerry_value_t \<Rightarrow> world \<Rightarrow> addr list \<Rightarrow> addr list \<Rightarrow> world \<Rightarrow> bool" where
  "free_post ra rv w ks rest w' =
    (module_list (modules w') (module_head_p w') (ks @ filter (\<lambda>a. \<not> released ra rv w a) rest)
     \<and> (\<forall>a. a \<in> set rest \<and> released ra rv w a \<longrightarrow> modules w' a = None)
     \<and> (\<forall>a. \<not> (a \<in> set rest \<and> released ra rv w a) \<longrightarrow>
            map_option payload (modules w' a) = map_option payload (modules w a))
     \<and> buffers w' = (\<lambda>b. if \<exists>a\<in>set rest. released ra rv w a
                                  \<and> map_option path_p (modules w a) = Some b
                          then None else buffers w b)
     \<and> refs w' = (\<lambda>v. refs w v - refs_held w (filter (released ra rv w) rest) v)
     \<and> brk w' = brk w \<and> native w' = native w \<and> trace w' = trace w)"

text \<open>
  The path a resolution computes: the working directory, or \<^verbatim>\<open>"/"\<close>, when the referrer
  has no descriptor or a base path length of 0, the directory part of the referrer's path
  otherwise, joined with the specifier by \<^verbatim>\<open>cwk_path_get_absolute\<close>.
\<close>

definition cwd :: "port_env \<Rightarrow> string" where
  "cwd env = (case getcwd env of Some s \<Rightarrow> s | None \<Rightarrow> ''/'')"

definition base_directory :: "port_env \<Rightarrow> jerry_value_t \<Rightarrow> world \<Rightarrow> string" where
  "base_directory env referrer w =
     (case resolve_base_path referrer w of
        Inr (Some p, n) \<Rightarrow>
          if 0 < n then (case buffers w p of Some s \<Rightarrow> take n s | None \<Rightarrow> []) else cwd env
      | _ \<Rightarrow> cwd env)"

definition canonical_path :: "port_env \<Rightarrow> jerry_value_t \<Rightarrow> jerry_value_t \<Rightarrow> world \<Rightarrow> string" where
  "canonical_path env specifier referrer w =
     cwk_path_get_absolute env (c_str (base_directory env referrer w))
       (c_str (utf8_string specifier))"

definition initial_world :: world where
  "initial_world =
     jerry_port_module_manager_init
       \<lparr>module_head_p = None, modules = Map.empty, buffers = Map.empty, brk = 1,
        refs = (\<lambda>v. 0), native = Map.empty, trace = []\<rparr>"

text \<open>
  A state with two descriptors, \<^verbatim>\<open>/a.js\<close> of realm 1 at the head and \<^verbatim>\<open>/b.js\<close> of realm 2
  behind it.
\<close>

definition example_world :: world where
  "example_world =
     \<lparr>module_head_p = Some 2,
      modules = [2 \<mapsto> \<lparr>next_p = Some 4, path_p = 1, base_path_length = 1,
                        realm = JS_object 1, module = JS_object 11\<rparr>,
                 4 \<mapsto> \<lparr>next_p = None, path_p = 3, base_path_length = 1,
                        realm = JS_object 2, module = JS_object 12\<rparr>],
      buffers = [1 \<mapsto> ''/a.js'', 3 \<mapsto> ''/b.js''],
      brk = 5,
      refs = (\<lambda>v. 1),
      native = [JS_object 11 \<mapsto> 2, JS_object 12 \<mapsto> 4],
      trace = []\<rparr>"

text \<open>
  A platform for the examples: every allocation succeeds, the working directory is \<^verbatim>\<open>/\<close>,
  the path arithmetic appends the specifier to the base, \<^verbatim>\<open>/a.js\<close>, \<^verbatim>\<open>/b.js\<close> and
  \<^verbatim>\<open>/bad.js\<close> are files of three bytes, \<^verbatim>\<open>/dir\<close> is a directory, the current realm is the
  object 1, and the parser rejects the source named \<^verbatim>\<open>bad.js\<close>.
\<close>

definition example_env :: port_env where
  "example_env =
     \<lparr>defined_WIN32 = False,
      malloc_in_path_p = True, malloc_in_path_pz = True, malloc_base_path_pz = True,
      getcwd = Some ''/'', malloc_out_cwd_p = True,
      cwk_path_get_absolute = (\<lambda>base path. base @ path),
      malloc_path_p = True,
      stat = (\<lambda>f. if f = ''/a.js'' \<or> f = ''/b.js'' \<or> f = ''/bad.js'' then Some S_IFREG
                  else if f = ''/dir'' then Some S_IFDIR else None),
      fopen = (\<lambda>f. True),
      ftell = (\<lambda>f. 3),
      malloc_buffer_p = True,
      fread = (\<lambda>f n. take n ''x=1''),
      global_object = JS_object 1,
      parse = (\<lambda>source name. if name = ''bad.js''
                 then JS_error JERRY_ERROR_SYNTAX ''Unexpected token'' else JS_object 20),
      malloc_module_p = True\<rparr>"

text \<open>The same platform once its files are deleted: \<^verbatim>\<open>stat\<close> finds none of them.\<close>

definition example_env_deleted :: port_env where
  "example_env_deleted = example_env\<lparr>stat := (\<lambda>f. None)\<rparr>"

text \<open>The state after a call that returned, and the state before it otherwise.\<close>

definition state_after :: "world \<Rightarrow> (fault + jerry_value_t \<times> world) option \<Rightarrow> world" where
  "state_after w res = (case res of Some (Inr (v, w')) \<Rightarrow> w' | _ \<Rightarrow> w)"

definition returned_value :: "(fault + jerry_value_t \<times> world) option \<Rightarrow> jerry_value_t option" where
  "returned_value res = (case res of Some (Inr (v, w')) \<Rightarrow> Some v | _ \<Rightarrow> None)"

text \<open>The states the port reaches from the initial one by calls that return.\<close>

inductive reachable :: "world \<Rightarrow> bool" where
  reachable_init: "reachable initial_world"
| reachable_resolve:
    "reachable w \<Longrightarrow>
     jerry_port_module_resolve env specifier referrer user_p w = Some (Inr (v, w')) \<Longrightarrow>
     reachable w'"
| reachable_release:
    "reachable w \<Longrightarrow> jerry_port_module_release realm' w = Some (Inr w') \<Longrightarrow> reachable w'"

text \<open>
  \<open>resolutions w w'\<close>: the state \<open>w'\<close> is reached from \<open>w\<close> by calls of
  \<^verbatim>\<open>jerry_port_module_resolve\<close> that return, with no call of \<^verbatim>\<open>jerry_port_module_release\<close>
  between them.
\<close>

inductive resolutions :: "world \<Rightarrow> world \<Rightarrow> bool" where
  resolutions_none: "resolutions w w"
| resolutions_resolve:
    "resolutions w w' \<Longrightarrow>
     jerry_port_module_resolve env specifier referrer user_p w' = Some (Inr (v, w'')) \<Longrightarrow>
     resolutions w w''"

section \<open>Properties\<close>

subsection \<open>C strings\<close>

lemma c_str_no_nul [simp]: "CHR 0x00 \<notin> set bs \<Longrightarrow> c_str bs = bs"
  by (auto simp: c_str_def)

lemma strlen_le_length: "strlen bs \<le> length bs"
  by (simp add: strlen_def c_str_def length_takeWhile_le)

lemma c_str_nth: "i < strlen bs \<Longrightarrow> c_str bs ! i = bs ! i"
  by (simp add: strlen_def c_str_def takeWhile_nth)

subsection \<open>What the memory operations change\<close>

lemma malloc_fail [simp]: "malloc False w = (None, w)"
  by (simp add: malloc_def)

lemma malloc_ok [simp]:
  "malloc True w = (Some (brk w), w\<lparr>buffers := (buffers w)(brk w \<mapsto> []), brk := Suc (brk w)\<rparr>)"
  by (simp add: malloc_def)

lemma store_fields [simp]:
  "module_head_p (store a bs w) = module_head_p w"
  "modules (store a bs w) = modules w"
  "buffers (store a bs w) = (buffers w)(a \<mapsto> bs)"
  "brk (store a bs w) = brk w"
  "refs (store a bs w) = refs w"
  "native (store a bs w) = native w"
  "trace (store a bs w) = trace w"
  by (simp_all add: store_def)

lemma free_fields [simp]:
  "module_head_p (free a w) = module_head_p w"
  "modules (free a w) = modules w"
  "buffers (free a w) = (buffers w)(a := None)"
  "brk (free a w) = brk w"
  "refs (free a w) = refs w"
  "native (free a w) = native w"
  "trace (free a w) = trace w"
  by (simp_all add: free_def)

lemma free_module_fields [simp]:
  "module_head_p (free_module a w) = module_head_p w"
  "modules (free_module a w) = (modules w)(a := None)"
  "buffers (free_module a w) = buffers w"
  "brk (free_module a w) = brk w"
  "refs (free_module a w) = refs w"
  "native (free_module a w) = native w"
  "trace (free_module a w) = trace w"
  by (simp_all add: free_module_def)

lemma release_fields [simp]:
  "module_head_p (jerry_release_value v w) = module_head_p w"
  "modules (jerry_release_value v w) = modules w"
  "buffers (jerry_release_value v w) = buffers w"
  "brk (jerry_release_value v w) = brk w"
  "refs (jerry_release_value v w) = (refs w)(v := refs w v - 1)"
  "native (jerry_release_value v w) = native w"
  "trace (jerry_release_value v w) = trace w"
  by (simp_all add: jerry_release_value_def)

lemma acquire_fields [simp]:
  "fst (jerry_acquire_value v w) = v"
  "module_head_p (snd (jerry_acquire_value v w)) = module_head_p w"
  "modules (snd (jerry_acquire_value v w)) = modules w"
  "buffers (snd (jerry_acquire_value v w)) = buffers w"
  "brk (snd (jerry_acquire_value v w)) = brk w"
  "refs (snd (jerry_acquire_value v w)) = (refs w)(v := refs w v + 1)"
  "native (snd (jerry_acquire_value v w)) = native w"
  "trace (snd (jerry_acquire_value v w)) = trace w"
  by (simp_all add: jerry_acquire_value_def)

lemma load_Some [simp]:
  "load (Some a) w = (case buffers w a of None \<Rightarrow> Inl Invalid_read | Some bs \<Rightarrow> Inr bs)"
  by (simp add: load_def)

lemma load_None [simp]: "load None w = Inl Null_dereference"
  by (simp add: load_def)

subsection \<open>Chains of descriptors\<close>

lemma module_list_None [simp]: "module_list h None as = (as = [])"
  by (cases as) auto

lemma module_list_Some:
  "module_list h (Some a) as =
     (\<exists>r bs. as = a # bs \<and> h a = Some r \<and> module_list h (next_p r) bs)"
  by (cases as) (auto split: option.splits)

lemma module_list_unique:
  "module_list h p as \<Longrightarrow> module_list h p bs \<Longrightarrow> as = bs"
proof (induction as arbitrary: p bs)
  case Nil
  then show ?case by simp
next
  case (Cons a as)
  then show ?case by (cases bs) (auto split: option.splits)
qed

lemma module_list_suffix:
  "module_list h p (as @ bs) \<Longrightarrow>
   module_list h (case bs of [] \<Rightarrow> None | b # _ \<Rightarrow> Some b) bs"
proof (induction as arbitrary: p)
  case Nil
  then show ?case by (cases bs) auto
next
  case (Cons a as)
  then show ?case by (auto split: option.splits)
qed

lemma module_list_head_not_in_tail:
  assumes "h a = Some r" and "module_list h (next_p r) as"
  shows "a \<notin> set as"
proof
  assume "a \<in> set as"
  then obtain bs cs where as: "as = bs @ a # cs"
    by (auto simp: in_set_conv_decomp)
  with assms(2) have "module_list h (Some a) (a # cs)"
    using module_list_suffix [of h "next_p r" bs "a # cs"] by simp
  with assms(1) have "module_list h (next_p r) cs" by simp
  with assms(2) have "as = cs" by (rule module_list_unique)
  with as show False by simp
qed

lemma module_list_distinct: "module_list h p as \<Longrightarrow> distinct as"
proof (induction as arbitrary: p)
  case Nil
  then show ?case by simp
next
  case (Cons a as)
  then show ?case
    by (auto split: option.splits dest: module_list_head_not_in_tail)
qed

lemma module_list_live: "module_list h p as \<Longrightarrow> a \<in> set as \<Longrightarrow> h a \<noteq> None"
  by (induction as arbitrary: p) (auto split: option.splits)

lemma module_list_update_other:
  "a \<notin> set as \<Longrightarrow> module_list (h(a := x)) p as = module_list h p as"
  by (induction as arbitrary: p) (auto split: option.splits)

lemma module_lookup_loop_find:
  "module_list (modules w) p as \<Longrightarrow> list_all (owns_path w) as \<Longrightarrow>
   module_lookup_loop C P p w = Some (Inr (find (is_record_for w C P) as))"
proof (induction as arbitrary: p)
  case Nil
  then show ?case by (simp add: module_lookup_loop.simps)
next
  case (Cons a as)
  from Cons.prems obtain r where p: "p = Some a" and r: "modules w a = Some r"
    and tl: "module_list (modules w) (next_p r) as"
    by (auto split: option.splits)
  from Cons.prems r obtain s where s: "buffers w (path_p r) = Some s"
    by (auto simp: owns_path_def)
  from Cons.prems have "list_all (owns_path w) as" by simp
  with tl have IH: "module_lookup_loop C P (next_p r) w = Some (Inr (find (is_record_for w C P) as))"
    by (rule Cons.IH)
  show ?case
    by (subst module_lookup_loop.simps) (simp add: p r s IH is_record_for_def)
qed

subsection \<open>The loop of \<^verbatim>\<open>jerry_port_module_free\<close>\<close>

lemma module_list_splice:
  assumes "module_list h x (as @ p # m # bs)" and "h p = Some pr" and "h m = Some r"
    and h': "h' = (h(m := None))(p \<mapsto> pr\<lparr>next_p := next_p r\<rparr>)"
  shows "module_list h' x (as @ p # bs)"
  using assms(1)
proof (induction as arbitrary: x)
  case Nil
  then have d: "distinct (p # m # bs)" by (metis append_Nil module_list_distinct)
  from Nil assms(2,3) have x: "x = Some p" and tl: "module_list h (next_p r) bs"
    by (auto split: option.splits)
  from d have "p \<notin> set bs" and "m \<notin> set bs" by auto
  with tl have "module_list h' (next_p r) bs"
    unfolding h' by (simp add: module_list_update_other)
  moreover have "h' p = Some (pr\<lparr>next_p := next_p r\<rparr>)" by (simp add: h')
  ultimately show ?case using x by simp
next
  case (Cons a as)
  then have d: "distinct (a # as @ p # m # bs)" by (metis append_Cons module_list_distinct)
  then have "h' a = h a" by (auto simp: h')
  with Cons show ?case by (auto split: option.splits)
qed

lemma free_post_nil:
  "module_list (modules w) (module_head_p w) ks \<Longrightarrow> free_post ra rv w ks [] w"
  by (simp add: free_post_def refs_held_def)

lemma free_post_keep:
  assumes "free_post ra rv w (ks @ [m]) rest w'" and "\<not> released ra rv w m"
  shows "free_post ra rv w ks (m # rest) w'"
  using assms unfolding free_post_def
  by (auto simp: fun_eq_iff)

lemma payload_eq_fields:
  "map_option payload x = map_option payload y \<Longrightarrow>
   map_option path_p x = map_option path_p y \<and> map_option realm x = map_option realm y
   \<and> map_option module x = map_option module y
   \<and> map_option base_path_length x = map_option base_path_length y"
  by (cases x; cases y) (auto simp: payload_def)

lemma released_cong:
  "map_option payload (modules w1 a) = map_option payload (modules w2 a) \<Longrightarrow>
   released ra rv w1 a = released ra rv w2 a"
  by (cases "modules w1 a"; cases "modules w2 a") (auto simp: released_def payload_def)

lemma refs_held_cong:
  "\<forall>a\<in>set as. map_option payload (modules w1 a) = map_option payload (modules w2 a) \<Longrightarrow>
   refs_held w1 as v = refs_held w2 as v"
proof (induction as)
  case Nil
  then show ?case by (simp add: refs_held_def)
next
  case (Cons a as)
  then have "refs_held w1 as v = refs_held w2 as v" by simp
  moreover from Cons.prems have "map_option payload (modules w1 a) = map_option payload (modules w2 a)"
    by simp
  then have "(case modules w1 a of None \<Rightarrow> 0
              | Some r \<Rightarrow> (if realm r = v then 1 else 0) + (if module r = v then 1 else 0))
           = (case modules w2 a of None \<Rightarrow> (0::int)
              | Some r \<Rightarrow> (if realm r = v then 1 else 0) + (if module r = v then 1 else 0))"
    by (cases "modules w1 a"; cases "modules w2 a") (auto simp: payload_def)
  ultimately show ?case by (simp add: refs_held_def)
qed

lemma free_post_remove:
  assumes post: "free_post ra rv w5 ks rest w'"
    and m: "modules w m = Some r" "released ra rv w m" "m \<notin> set rest"
    and mods: "modules w5 m = None"
      "\<forall>a. a \<noteq> m \<longrightarrow> map_option payload (modules w5 a) = map_option payload (modules w a)"
    and bufs: "buffers w5 = (buffers w)(path_p r := None)"
    and refs: "refs w5 = (\<lambda>v. refs w v - (if realm r = v then 1 else 0) - (if module r = v then 1 else 0))"
    and others: "brk w5 = brk w" "native w5 = native w" "trace w5 = trace w"
  shows "free_post ra rv w ks (m # rest) w'"
proof -
  have same: "\<And>a. a \<in> set rest \<Longrightarrow> map_option payload (modules w5 a) = map_option payload (modules w a)"
    using m(3) mods(2) by auto
  have rel: "\<And>a. a \<noteq> m \<Longrightarrow> released ra rv w5 a = released ra rv w a"
    using mods(2) released_cong by blast
  have rel': "\<And>a. a \<in> set rest \<Longrightarrow> released ra rv w5 a = released ra rv w a"
    using m(3) rel by metis
  have notrel: "\<not> released ra rv w5 m" by (simp add: released_def mods(1))
  have f1: "filter (\<lambda>a. \<not> released ra rv w5 a) rest = filter (\<lambda>a. \<not> released ra rv w a) rest"
    by (rule filter_cong) (simp_all add: rel')
  have f2: "filter (released ra rv w5) rest = filter (released ra rv w) rest"
    by (rule filter_cong) (simp_all add: rel')
  have c1: "module_list (modules w') (module_head_p w')
              (ks @ filter (\<lambda>a. \<not> released ra rv w a) (m # rest))"
    using post m(2) f1 by (simp add: free_post_def)
  have c2: "\<forall>a. a \<in> set (m # rest) \<and> released ra rv w a \<longrightarrow> modules w' a = None"
  proof (intro allI impI)
    fix a assume a: "a \<in> set (m # rest) \<and> released ra rv w a"
    show "modules w' a = None"
    proof (cases "a = m")
      case True
      from post notrel have "map_option payload (modules w' m) = map_option payload (modules w5 m)"
        by (simp add: free_post_def)
      with mods(1) True show ?thesis by simp
    next
      case False
      with a rel have "a \<in> set rest \<and> released ra rv w5 a" by simp
      with post show ?thesis by (simp add: free_post_def)
    qed
  qed
  have c3: "\<forall>a. \<not> (a \<in> set (m # rest) \<and> released ra rv w a) \<longrightarrow>
            map_option payload (modules w' a) = map_option payload (modules w a)"
  proof (intro allI impI)
    fix a assume a: "\<not> (a \<in> set (m # rest) \<and> released ra rv w a)"
    with m(2) have ne: "a \<noteq> m" by auto
    with a rel have "\<not> (a \<in> set rest \<and> released ra rv w5 a)" by simp
    with post have "map_option payload (modules w' a) = map_option payload (modules w5 a)"
      by (simp add: free_post_def)
    with ne mods(2) show "map_option payload (modules w' a) = map_option payload (modules w a)"
      by simp
  qed
  have c4: "buffers w' = (\<lambda>b. if \<exists>a\<in>set (m # rest). released ra rv w a
                                   \<and> map_option path_p (modules w a) = Some b
                          then None else buffers w b)"
  proof
    fix b
    have "(\<exists>a\<in>set rest. released ra rv w5 a \<and> map_option path_p (modules w5 a) = Some b)
          = (\<exists>a\<in>set rest. released ra rv w a \<and> map_option path_p (modules w a) = Some b)"
      using same rel m(3) payload_eq_fields by (metis (no_types, lifting))
    moreover from post have "buffers w' b = (if \<exists>a\<in>set rest. released ra rv w5 a
                                   \<and> map_option path_p (modules w5 a) = Some b
                          then None else buffers w5 b)"
      by (simp add: free_post_def)
    ultimately show "buffers w' b = (if \<exists>a\<in>set (m # rest). released ra rv w a
                                   \<and> map_option path_p (modules w a) = Some b
                          then None else buffers w b)"
      using m(1,2) bufs by auto
  qed
  have c5: "refs w' = (\<lambda>v. refs w v - refs_held w (filter (released ra rv w) (m # rest)) v)"
  proof
    fix v
    have "refs_held w5 (filter (released ra rv w) rest) v = refs_held w (filter (released ra rv w) rest) v"
      using same by (intro refs_held_cong) auto
    moreover from post have "refs w' v = refs w5 v - refs_held w5 (filter (released ra rv w5) rest) v"
      by (simp add: free_post_def)
    moreover have "refs_held w (m # as) v = (if realm r = v then 1 else 0) + (if module r = v then 1 else 0)
         + refs_held w as v" for as
      by (simp add: refs_held_def m(1))
    ultimately show "refs w' v = refs w v - refs_held w (filter (released ra rv w) (m # rest)) v"
      using m(2) f2 refs by simp
  qed
  from post others have c6: "brk w' = brk w \<and> native w' = native w \<and> trace w' = trace w"
    by (simp add: free_post_def)
  show ?thesis
    unfolding free_post_def using c1 c2 c3 c4 c5 c6 by blast
qed

lemma module_list_start:
  "module_list h p as \<Longrightarrow> p = (case as of [] \<Rightarrow> None | a # _ \<Rightarrow> Some a)"
  by (cases as) auto

lemma payload_next_p [simp]: "payload (r\<lparr>next_p := n\<rparr>) = payload r"
  by (simp add: payload_def)

lemma module_free_loop_correct:
  "module_list (modules w) (module_head_p w) (ks @ rest) \<Longrightarrow>
   \<exists>w'. module_free_loop ra rv (case rest of [] \<Rightarrow> None | a # _ \<Rightarrow> Some a)
           (if ks = [] then None else Some (last ks)) w = Some (Inr w')
        \<and> free_post ra rv w ks rest w'"
proof (induction rest arbitrary: ks w)
  case Nil
  then show ?case
    by (subst module_free_loop.simps) (simp add: free_post_nil)
next
  case (Cons m rest)
  let ?h = "modules w"
  from Cons.prems have d: "distinct (ks @ m # rest)" by (rule module_list_distinct)
  from Cons.prems have "module_list ?h (Some m) (m # rest)"
    using module_list_suffix [of ?h "module_head_p w" ks "m # rest"] by simp
  then obtain r where r: "?h m = Some r" and tl: "module_list ?h (next_p r) rest"
    by (auto split: option.splits)
  from tl have nx: "(case rest of [] \<Rightarrow> None | a # _ \<Rightarrow> Some a) = next_p r"
    by (simp add: module_list_start [symmetric])
  from d have m_rest: "m \<notin> set rest" by simp
  show ?case
  proof (cases "ra \<or> realm r = rv")
    case False
    then have keep: "\<not> released ra rv w m" by (simp add: released_def r)
    from Cons.prems have "module_list ?h (module_head_p w) ((ks @ [m]) @ rest)" by simp
    from Cons.IH [OF this] obtain w' where
      run: "module_free_loop ra rv (next_p r) (Some m) w = Some (Inr w')"
      and post: "free_post ra rv w (ks @ [m]) rest w'"
      by (auto simp: nx)
    from post keep have "free_post ra rv w ks (m # rest) w'" by (rule free_post_keep)
    moreover have "module_free_loop ra rv (Some m) (if ks = [] then None else Some (last ks)) w
                   = Some (Inr w')"
      using False r run by (subst module_free_loop.simps) simp
    ultimately show ?thesis by simp
  next
    case True
    then have rel: "released ra rv w m" by (auto simp: released_def r)
    let ?w4 = "free_module m (jerry_release_value (module r)
                 (jerry_release_value (realm r) (free (path_p r) w)))"
    show ?thesis
    proof (cases "ks = []")
      case ks: True
      let ?w5 = "?w4\<lparr>module_head_p := next_p r\<rparr>"
      from tl m_rest have "module_list (modules ?w5) (module_head_p ?w5) ([] @ rest)"
        by (simp add: module_list_update_other)
      from Cons.IH [OF this] obtain w' where
        run: "module_free_loop ra rv (next_p r) None ?w5 = Some (Inr w')"
        and post: "free_post ra rv ?w5 [] rest w'"
        by (auto simp: nx)
      have refs5: "refs ?w5 = (\<lambda>v. refs w v - (if realm r = v then 1 else 0)
                                  - (if module r = v then 1 else 0))"
        by (auto simp: fun_eq_iff)
      have "free_post ra rv w [] (m # rest) w'"
        by (rule free_post_remove [OF post r rel m_rest _ _ _ refs5]) simp_all
      moreover have "module_free_loop ra rv (Some m) None w = Some (Inr w')"
        using True r run by (subst module_free_loop.simps) simp
      ultimately show ?thesis using ks by simp
    next
      case ks: False
      then obtain ks' p where ksp: "ks = ks' @ [p]"
        by (metis rev_exhaust)
      with d have pm: "p \<noteq> m" by auto
      from Cons.prems ksp have "?h p \<noteq> None"
        by (intro module_list_live [of ?h "module_head_p w" "ks @ m # rest" p]) auto
      then obtain pr where pr: "?h p = Some pr" by auto
      let ?w5 = "?w4\<lparr>modules := (modules ?w4)(p \<mapsto> pr\<lparr>next_p := next_p r\<rparr>)\<rparr>"
      have set5: "set_next_p p (next_p r) ?w4 = Inr ?w5"
        using pm pr by (simp add: set_next_p_def)
      have "module_list (modules ?w5) (module_head_p w) (ks' @ p # rest)"
        using Cons.prems pr r unfolding ksp
        by (intro module_list_splice [of ?h "module_head_p w" ks' p m rest pr r]) simp_all
      then have "module_list (modules ?w5) (module_head_p ?w5) (ks @ rest)"
        by (simp add: ksp)
      from Cons.IH [OF this] obtain w' where
        run: "module_free_loop ra rv (next_p r) (Some p) ?w5 = Some (Inr w')"
        and post: "free_post ra rv ?w5 ks rest w'"
        by (auto simp: nx ksp)
      have refs5: "refs ?w5 = (\<lambda>v. refs w v - (if realm r = v then 1 else 0)
                                  - (if module r = v then 1 else 0))"
        by (auto simp: fun_eq_iff)
      have "free_post ra rv w ks (m # rest) w'"
        by (rule free_post_remove [OF post r rel m_rest _ _ _ refs5]) (use pm pr in auto)
      moreover have "module_free_loop ra rv (Some m) (Some p) w = Some (Inr w')"
        using True r run set5 by (subst module_free_loop.simps) simp
      ultimately show ?thesis using ksp by simp
    qed
  qed
qed


lemma length_filter_filter_le: "length (filter P (filter Q xs)) \<le> length (filter P xs)"
  by (induction xs) auto

lemma free_post_list:
  "free_post ra rv w ks rest w' \<Longrightarrow>
   module_list (modules w') (module_head_p w') (ks @ filter (\<lambda>a. \<not> released ra rv w a) rest)"
  unfolding free_post_def by (elim conjE)

lemma free_post_gone:
  "free_post ra rv w ks rest w' \<Longrightarrow> a \<in> set rest \<Longrightarrow> released ra rv w a \<Longrightarrow> modules w' a = None"
  unfolding free_post_def by blast

lemma free_post_payload:
  "free_post ra rv w ks rest w' \<Longrightarrow> \<not> (a \<in> set rest \<and> released ra rv w a) \<Longrightarrow>
   map_option payload (modules w' a) = map_option payload (modules w a)"
  unfolding free_post_def by blast

lemma free_post_buffers:
  assumes "free_post ra rv w ks rest w'"
  shows "buffers w' b = (if \<exists>a\<in>set rest. released ra rv w a
                                  \<and> map_option path_p (modules w a) = Some b
                          then None else buffers w b)"
proof -
  from assms have "buffers w' = (\<lambda>b. if \<exists>a\<in>set rest. released ra rv w a
                                  \<and> map_option path_p (modules w a) = Some b
                          then None else buffers w b)"
    unfolding free_post_def by (elim conjE)
  then show ?thesis by (rule ssubst) (rule refl)
qed

lemma free_post_refs:
  assumes "free_post ra rv w ks rest w'"
  shows "refs w' v = refs w v - refs_held w (filter (released ra rv w) rest) v"
proof -
  from assms have "refs w' = (\<lambda>v. refs w v - refs_held w (filter (released ra rv w) rest) v)"
    unfolding free_post_def by (elim conjE)
  then show ?thesis by (rule ssubst) (rule refl)
qed

lemma free_post_others:
  "free_post ra rv w ks rest w' \<Longrightarrow> brk w' = brk w \<and> native w' = native w \<and> trace w' = trace w"
  unfolding free_post_def by blast

lemma module_free_correct:
  assumes "registry w as"
  shows "\<exists>w'. jerry_port_module_free rv w = Some (Inr w')
            \<and> free_post (\<not> jerry_value_is_object rv) rv w [] as w'"
proof -
  from assms have l: "module_list (modules w) (module_head_p w) ([] @ as)"
    by (simp add: registry_def)
  then have "module_head_p w = (case as of [] \<Rightarrow> None | a # _ \<Rightarrow> Some a)"
    by (simp add: module_list_start [symmetric])
  with module_free_loop_correct [OF l, of "\<not> jerry_value_is_object rv" rv]
  show ?thesis
    by (simp add: jerry_port_module_free_def)
qed

lemma free_post_kept:
  assumes post: "free_post ra rv w [] as w'" and ok: "registry_ok w as"
    and a: "a \<in> set as" "\<not> released ra rv w a"
  shows "\<exists>r r'. modules w a = Some r \<and> modules w' a = Some r' \<and> payload r' = payload r
           \<and> buffers w' (path_p r) = buffers w (path_p r) \<and> buffers w (path_p r) \<noteq> None"
proof -
  from ok have own: "list_all (owns_path w) as" by (simp add: registry_ok_def)
  with a(1) have "owns_path w a" by (simp add: list_all_iff)
  then obtain r where r: "modules w a = Some r" and live: "buffers w (path_p r) \<noteq> None"
    by (auto simp: owns_path_def split: option.splits)
  from a(2) have "map_option payload (modules w' a) = map_option payload (modules w a)"
    by (intro free_post_payload [OF post]) simp
  with r obtain r' where r': "modules w' a = Some r'" "payload r' = payload r" by auto
  have "\<not> (\<exists>b\<in>set as. released ra rv w b \<and> map_option path_p (modules w b) = Some (path_p r))"
  proof
    assume "\<exists>b\<in>set as. released ra rv w b \<and> map_option path_p (modules w b) = Some (path_p r)"
    then obtain b where b: "b \<in> set as" "released ra rv w b"
      "map_option path_p (modules w b) = Some (path_p r)" by auto
    from ok have "inj_on (\<lambda>a. map_option path_p (modules w a)) (set as)"
      by (simp add: registry_ok_def distinct_map)
    with a(1) b(1,3) r have "a = b" by (auto simp: inj_on_def)
    with a(2) b(2) show False by simp
  qed
  then have notex: "(\<exists>b\<in>set as. released ra rv w b
           \<and> map_option path_p (modules w b) = Some (path_p r)) = False" by (rule eq_False [THEN iffD2])
  have "buffers w' (path_p r) = buffers w (path_p r)"
    by (simp only: free_post_buffers [OF post] notex if_False)
  with r r' live show ?thesis by blast
qed

lemma free_post_is_record_for:
  assumes post: "free_post ra rv w [] as w'" and ok: "registry_ok w as"
    and a: "a \<in> set as" "\<not> released ra rv w a"
  shows "is_record_for w' C P a = is_record_for w C P a"
proof -
  from free_post_kept [OF post ok a] obtain r r' where
    "modules w a = Some r" "modules w' a = Some r'" "payload r' = payload r"
    "buffers w' (path_p r) = buffers w (path_p r)" by blast
  then show ?thesis by (simp add: is_record_for_def payload_def)
qed

lemma free_kept_owns_path:
  assumes post: "free_post ra rv w [] as w'" and ok: "registry_ok w as"
  shows "list_all (owns_path w') (filter (\<lambda>a. \<not> released ra rv w a) as)"
  unfolding list_all_iff
proof
  fix a assume "a \<in> set (filter (\<lambda>a. \<not> released ra rv w a) as)"
  then have "a \<in> set as" "\<not> released ra rv w a" by auto
  from free_post_kept [OF post ok this] obtain r r' where
    k: "modules w' a = Some r'" "payload r' = payload r"
    "buffers w' (path_p r) = buffers w (path_p r)" "buffers w (path_p r) \<noteq> None" by blast
  from k(2) have "path_p r' = path_p r" by (simp add: payload_def)
  with k(3,4) have "buffers w' (path_p r') \<noteq> None" by simp
  with k(1) show "owns_path w' a"
    by (simp add: owns_path_def)
qed

lemma free_kept_distinct_paths:
  assumes post: "free_post ra rv w [] as w'" and ok: "registry_ok w as"
  shows "distinct (map (\<lambda>a. map_option path_p (modules w' a))
                     (filter (\<lambda>a. \<not> released ra rv w a) as))"
proof -
  let ?ks = "filter (\<lambda>a. \<not> released ra rv w a) as"
  have eq: "map_option path_p (modules w' a) = map_option path_p (modules w a)"
    if "a \<in> set ?ks" for a
  proof -
    from that have "map_option payload (modules w' a) = map_option payload (modules w a)"
      by (intro free_post_payload [OF post]) simp
    then show ?thesis by (rule payload_eq_fields [THEN conjunct1])
  qed
  have meq: "map (\<lambda>a. map_option path_p (modules w' a)) ?ks
           = map (\<lambda>a. map_option path_p (modules w a)) ?ks"
    by (rule map_cong [OF refl]) (rule eq)
  from ok have "distinct (map (\<lambda>a. map_option path_p (modules w a)) as)"
    unfolding registry_ok_def by (elim conjE)
  then have "distinct (map (\<lambda>a. map_option path_p (modules w a)) ?ks)"
    by (rule distinct_map_filter)
  then show ?thesis
    by (simp only: meq)
qed

lemma free_kept_dom:
  assumes post: "free_post ra rv w [] as w'" and ok: "registry_ok w as"
  shows "dom (modules w') \<subseteq> set (filter (\<lambda>a. \<not> released ra rv w a) as)"
proof
  let ?ks = "filter (\<lambda>a. \<not> released ra rv w a) as"
  from ok have sub: "dom (modules w) \<subseteq> set as"
    unfolding registry_ok_def by (elim conjE)
  fix a assume a: "a \<in> dom (modules w')"
  show "a \<in> set ?ks"
  proof (cases "a \<in> set as \<and> released ra rv w a")
    case True
    then have "modules w' a = None" by (intro free_post_gone [OF post]) simp_all
    with a show ?thesis by auto
  next
    case False
    then have "map_option payload (modules w' a) = map_option payload (modules w a)"
      by (rule free_post_payload [OF post])
    with a have "a \<in> dom (modules w)" by (cases "modules w a") auto
    with sub have "a \<in> set as" by auto
    with False show ?thesis by simp
  qed
qed

lemma free_heap_bound:
  assumes post: "free_post ra rv w [] as w'" and ok: "registry_ok w as"
  shows "\<forall>a. a \<in> dom (modules w') \<or> a \<in> dom (buffers w') \<longrightarrow> a < brk w'"
proof (intro allI impI)
  from ok have reg: "module_list (modules w) (module_head_p w) as"
    unfolding registry_ok_def registry_def by (elim conjE)
  from ok have "\<forall>a. a \<in> dom (modules w) \<or> a \<in> dom (buffers w) \<longrightarrow> a < brk w"
    unfolding registry_ok_def by (elim conjE)
  then have bound: "\<And>a. a \<in> dom (modules w) \<or> a \<in> dom (buffers w) \<Longrightarrow> a < brk w"
    by blast
  from free_post_others [OF post] have b: "brk w' = brk w" by simp
  fix a assume a: "a \<in> dom (modules w') \<or> a \<in> dom (buffers w')"
  from a show "a < brk w'"
  proof
    assume "a \<in> dom (modules w')"
    with free_kept_dom [OF post ok] have "a \<in> set as" by auto
    with reg have "modules w a \<noteq> None" by (rule module_list_live)
    then have "a \<in> dom (modules w)" by auto
    with bound b show ?thesis by simp
  next
    assume "a \<in> dom (buffers w')"
    then have "buffers w' a \<noteq> None" by auto
    then have "buffers w a \<noteq> None"
      by (simp add: free_post_buffers [OF post] split: if_splits)
    then have "a \<in> dom (buffers w)" by auto
    with bound b show ?thesis by simp
  qed
qed

lemma registry_ok_free:
  assumes post: "free_post ra rv w [] as w'" and ok: "registry_ok w as"
  shows "registry_ok w' (filter (\<lambda>a. \<not> released ra rv w a) as)"
proof -
  let ?ks = "filter (\<lambda>a. \<not> released ra rv w a) as"
  from free_post_list [OF post] have c1: "registry w' ?ks" by (simp add: registry_def)
  from c1 free_kept_owns_path [OF post ok] free_kept_distinct_paths [OF post ok]
    free_kept_dom [OF post ok] free_heap_bound [OF post ok]
  show ?thesis unfolding registry_ok_def by (intro conjI)
qed

lemma registry_unique_free:
  assumes post: "free_post ra rv w [] as w'" and ok: "registry_ok w as"
    and un: "registry_unique w as"
  shows "registry_unique w' (filter (\<lambda>a. \<not> released ra rv w a) as)"
  unfolding registry_unique_def
proof (intro allI)
  fix C P
  let ?ks = "filter (\<lambda>a. \<not> released ra rv w a) as"
  have "is_record_for w' C P a = is_record_for w C P a" if "a \<in> set ?ks" for a
    using that free_post_is_record_for [OF post ok, of a C P] by simp
  then have "filter (is_record_for w' C P) ?ks = filter (is_record_for w C P) ?ks"
    by (rule filter_cong [OF refl])
  moreover have "length (filter (is_record_for w C P) ?ks) \<le> length (filter (is_record_for w C P) as)"
    by (rule length_filter_filter_le)
  moreover from un have "length (filter (is_record_for w C P) as) \<le> 1"
    by (simp add: registry_unique_def)
  ultimately show "length (filter (is_record_for w' C P) ?ks) \<le> 1"
    by simp
qed


lemma find_filter_implied:
  "(\<And>x. x \<in> set xs \<Longrightarrow> P x \<Longrightarrow> Q x) \<Longrightarrow> find P (filter Q xs) = find P xs"
  by (induction xs) auto

lemma find_cong_set:
  "(\<And>x. x \<in> set xs \<Longrightarrow> P x = Q x) \<Longrightarrow> find P xs = find Q xs"
  by (induction xs) auto

lemma find_None_all: "(\<And>x. x \<in> set xs \<Longrightarrow> \<not> P x) \<Longrightarrow> find P xs = None"
  by (induction xs) auto

lemma registry_ok_lookup:
  assumes "registry_ok w as"
  shows "module_lookup_loop C P (module_head_p w) w = Some (Inr (find (is_record_for w C P) as))"
proof -
  from assms have "module_list (modules w) (module_head_p w) as"
    unfolding registry_ok_def registry_def by (elim conjE)
  moreover from assms have "list_all (owns_path w) as"
    unfolding registry_ok_def by (elim conjE)
  ultimately show ?thesis by (rule module_lookup_loop_find)
qed

lemma released_iff:
  "released ra rv w a \<longleftrightarrow> (\<exists>r. modules w a = Some r \<and> (ra \<or> realm r = rv))"
  by (simp add: released_def split: option.splits)

lemma release_scoped_lemma:
  assumes ok: "registry_ok w as" and obj: "jerry_value_is_object C1" and ne: "C1 \<noteq> C2"
  shows "\<exists>w'. jerry_port_module_release C1 w = Some (Inr w')
      \<and> registry_ok w' (filter (\<lambda>a. \<not> released False C1 w a) as)
      \<and> (\<forall>P. module_lookup_loop C1 P (module_head_p w') w' = Some (Inr None))
      \<and> (\<forall>P. module_lookup_loop C2 P (module_head_p w') w'
                = module_lookup_loop C2 P (module_head_p w) w)
      \<and> (\<forall>a r. a \<in> set as \<and> modules w a = Some r \<and> realm r = C1
              \<longrightarrow> modules w' a = None \<and> buffers w' (path_p r) = None)
      \<and> (\<forall>a r. a \<in> set as \<and> modules w a = Some r \<and> realm r = C2
              \<longrightarrow> (\<exists>r'. modules w' a = Some r' \<and> payload r' = payload r
                        \<and> buffers w' (path_p r) = buffers w (path_p r)))
      \<and> (\<forall>v. refs w' v = refs w v - refs_held w (filter (released False C1 w) as) v)
      \<and> brk w' = brk w \<and> native w' = native w \<and> trace w' = trace w"
proof -
  let ?ks = "filter (\<lambda>a. \<not> released False C1 w a) as"
  from ok have reg: "registry w as" unfolding registry_ok_def by (elim conjE)
  from module_free_correct [OF reg, of C1] obj obtain w' where
    run: "jerry_port_module_release C1 w = Some (Inr w')"
    and post: "free_post False C1 w [] as w'"
    by (auto simp: jerry_port_module_release_def)
  have ok': "registry_ok w' ?ks" by (rule registry_ok_free [OF post ok])
  have l1: "module_lookup_loop C1 P (module_head_p w') w' = Some (Inr None)" for P
  proof -
    have "\<not> is_record_for w' C1 P a" if "a \<in> set ?ks" for a
    proof -
      from that have a: "a \<in> set as" "\<not> released False C1 w a" by auto
      from free_post_is_record_for [OF post ok a]
      have "is_record_for w' C1 P a = is_record_for w C1 P a" .
      moreover from a(2) have "\<not> is_record_for w C1 P a"
        by (auto simp: released_def is_record_for_def split: option.splits)
      ultimately show ?thesis by simp
    qed
    then have "find (is_record_for w' C1 P) ?ks = None" by (rule find_None_all)
    with registry_ok_lookup [OF ok', of C1 P] show ?thesis by simp
  qed
  have l2: "module_lookup_loop C2 P (module_head_p w') w'
                = module_lookup_loop C2 P (module_head_p w) w" for P
  proof -
    have "find (is_record_for w' C2 P) ?ks = find (is_record_for w C2 P) ?ks"
    proof (rule find_cong_set)
      fix a assume "a \<in> set ?ks"
      then have a: "a \<in> set as" "\<not> released False C1 w a" by auto
      from free_post_is_record_for [OF post ok a]
      show "is_record_for w' C2 P a = is_record_for w C2 P a" .
    qed
    also have "\<dots> = find (is_record_for w C2 P) as"
    proof (rule find_filter_implied)
      fix a assume "a \<in> set as" "is_record_for w C2 P a"
      with ne show "\<not> released False C1 w a"
        by (auto simp: released_def is_record_for_def split: option.splits)
    qed
    finally show ?thesis
      by (simp only: registry_ok_lookup [OF ok'] registry_ok_lookup [OF ok])
  qed
  have gone: "modules w' a = None \<and> buffers w' (path_p r) = None"
    if "a \<in> set as \<and> modules w a = Some r \<and> realm r = C1" for a r
  proof -
    from that have rel: "released False C1 w a" by (simp add: released_def)
    with that have "modules w' a = None" by (intro free_post_gone [OF post]) simp_all
    moreover from that rel
    have "\<exists>a\<in>set as. released False C1 w a \<and> map_option path_p (modules w a) = Some (path_p r)"
      by auto
    then have "buffers w' (path_p r) = None"
      by (simp only: free_post_buffers [OF post] if_True)
    ultimately show ?thesis by simp
  qed
  have kept: "\<exists>r'. modules w' a = Some r' \<and> payload r' = payload r
                \<and> buffers w' (path_p r) = buffers w (path_p r)"
    if "a \<in> set as \<and> modules w a = Some r \<and> realm r = C2" for a r
  proof -
    from that ne have "a \<in> set as" "\<not> released False C1 w a" by (auto simp: released_def)
    from free_post_kept [OF post ok this] that show ?thesis by auto
  qed
  from free_post_others [OF post] have oth: "brk w' = brk w \<and> native w' = native w \<and> trace w' = trace w" .
  from l1 have l1': "\<forall>P. module_lookup_loop C1 P (module_head_p w') w' = Some (Inr None)" ..
  from l2 have l2': "\<forall>P. module_lookup_loop C2 P (module_head_p w') w'
                = module_lookup_loop C2 P (module_head_p w) w" ..
  from gone have gone': "\<forall>a r. a \<in> set as \<and> modules w a = Some r \<and> realm r = C1
              \<longrightarrow> modules w' a = None \<and> buffers w' (path_p r) = None" by (intro allI impI)
  from kept have kept': "\<forall>a r. a \<in> set as \<and> modules w a = Some r \<and> realm r = C2
              \<longrightarrow> (\<exists>r'. modules w' a = Some r' \<and> payload r' = payload r
                        \<and> buffers w' (path_p r) = buffers w (path_p r))" by (intro allI impI)
  from free_post_refs [OF post]
  have refs': "\<forall>v. refs w' v = refs w v - refs_held w (filter (released False C1 w) as) v" ..
  from oth have o1: "brk w' = brk w" and o2: "native w' = native w" and o3: "trace w' = trace w"
    by simp_all
  from run ok' l1' l2' gone' kept' refs' o1 o2 o3
  show ?thesis by (intro exI [of _ w'] conjI)
qed


subsection \<open>Path normalisation and file reading\<close>

lemma heap_bound_step:
  assumes "\<forall>a. a \<in> dom (buffers w) \<longrightarrow> a < brk w" and "brk w \<le> brk w'"
    and "buffers w' = buffers w \<or> (\<exists>p s. p < brk w' \<and> buffers w' = (buffers w)(p \<mapsto> s))"
  shows "\<forall>a. a \<in> dom (buffers w') \<longrightarrow> a < brk w'"
  using assms by (auto simp: dom_def split: if_splits) (meson less_le_trans)+

lemma normalize_path_frame0:
  assumes run: "jerry_port_normalize_path env (Some ip) n bp bn w = Inr (res, w')"
    and ip: "buffers w ip \<noteq> None"
    and heap: "\<forall>a. a \<in> dom (buffers w) \<longrightarrow> a < brk w"
  shows "modules w' = modules w \<and> module_head_p w' = module_head_p w \<and> refs w' = refs w
      \<and> native w' = native w \<and> trace w' = trace w \<and> brk w \<le> brk w'
      \<and> (case res of
            None \<Rightarrow> buffers w' = buffers w
          | Some p \<Rightarrow> brk w \<le> p \<and> p < brk w' \<and> (\<exists>path. buffers w' = (buffers w)(p \<mapsto> path)))"
proof -
  from heap ip have ipb: "ip < brk w" by auto
  from heap have f0: "buffers w (brk w) = None" "buffers w (Suc (brk w)) = None"
    "buffers w (Suc (Suc (brk w))) = None"
    by (auto simp: dom_def)
  show ?thesis
  proof (cases "0 < bn")
    case True
    show ?thesis
      using run True ip ipb f0
      by (cases bp)
         (auto simp: jerry_port_normalize_path_def malloc_def Let_def fun_eq_iff
          split: if_splits option.splits)
  next
    case False
    from False show ?thesis
      using run ip ipb f0
      by (auto simp: jerry_port_normalize_path_def jerry_port_get_cwd_def malloc_def Let_def fun_eq_iff
          split: option.splits if_splits)
  qed
qed


lemma read_source_None_iff:
  "fst (jerry_port_read_source env f w) = None \<longleftrightarrow>
     stat env f = None \<or> stat env f = Some S_IFDIR \<or> \<not> fopen env f \<or> \<not> malloc_buffer_p env
     \<or> length (fread env f (ftell env f)) \<noteq> ftell env f"
  by (auto simp: jerry_port_read_source_def malloc_def Let_def split: if_splits option.splits)

lemma read_source_fail:
  assumes "fst (jerry_port_read_source env f w) = None"
    and heap: "\<forall>a. a \<in> dom (buffers w) \<longrightarrow> a < brk w"
  shows "\<exists>w'. jerry_port_read_source env f w = (None, w')
      \<and> modules w' = modules w \<and> module_head_p w' = module_head_p w \<and> refs w' = refs w
      \<and> native w' = native w \<and> trace w' = trace w @ [Ev_read_source f]
      \<and> brk w \<le> brk w' \<and> buffers w' = buffers w"
proof -
  from heap have f0: "buffers w (brk w) = None" by (auto simp: dom_def)
  show ?thesis
    using assms(1) f0
    by (auto simp: jerry_port_read_source_def malloc_def Let_def fun_eq_iff
        split: if_splits option.splits)
qed

lemma read_source_ok:
  assumes "fst (jerry_port_read_source env f w) \<noteq> None"
  shows "jerry_port_read_source env f w =
           (Some (brk w, ftell env f),
            w\<lparr>trace := trace w @ [Ev_read_source f],
              buffers := (buffers w)(brk w \<mapsto> fread env f (ftell env f)),
              brk := Suc (brk w)\<rparr>)
         \<and> length (fread env f (ftell env f)) = ftell env f"
  using assms
  by (auto simp: jerry_port_read_source_def malloc_def Let_def store_def
      split: if_splits option.splits)


subsection \<open>The parts of the resolver\<close>

lemma resolve_load_read_fails:
  assumes fail: "fst (jerry_port_read_source env (c_str P) w) = None"
    and pp: "buffers w pp = Some P"
    and heap: "\<forall>a. a \<in> dom (buffers w) \<longrightarrow> a < brk w"
  shows "\<exists>w'. resolve_load env ip n pp C w
            = Inr (JS_error JERRY_ERROR_SYNTAX ''Module file not found'', w')
      \<and> modules w' = modules w \<and> module_head_p w' = module_head_p w
      \<and> buffers w' = (buffers w)(pp := None, ip := None)
      \<and> refs w' = ((refs w)(C := refs w C - 1))
            (JS_error JERRY_ERROR_SYNTAX ''Module file not found'' :=
               ((refs w)(C := refs w C - 1))
                 (JS_error JERRY_ERROR_SYNTAX ''Module file not found'') + 1)
      \<and> native w' = native w \<and> trace w' = trace w @ [Ev_read_source (c_str P)]
      \<and> brk w \<le> brk w'"
proof -
  from read_source_fail [OF fail heap] obtain w1 where
    r: "jerry_port_read_source env (c_str P) w = (None, w1)"
    and f: "modules w1 = modules w" "module_head_p w1 = module_head_p w" "refs w1 = refs w"
      "native w1 = native w" "trace w1 = trace w @ [Ev_read_source (c_str P)]"
      "brk w \<le> brk w1" "buffers w1 = buffers w"
    by blast
  show ?thesis
    by (simp add: resolve_load_def pp r jerry_create_error_def f
          jerry_acquire_value_def jerry_release_value_def)
qed

lemma resolve_load_parsed:
  assumes ok: "fst (jerry_port_read_source env (c_str P) w) \<noteq> None"
    and pp: "buffers w pp = Some P" and ip: "buffers w ip = Some I"
    and heap: "\<forall>a. a \<in> dom (buffers w) \<longrightarrow> a < brk w"
    and src: "src = fread env (c_str P) (ftell env (c_str P))"
    and v: "v = parse env src (take n I)"
  shows "resolve_load env ip n pp C w =
     (if jerry_value_is_error v then
        Inr (v, w\<lparr>trace := trace w @ [Ev_read_source (c_str P), Ev_parse src (take n I)],
                  buffers := (buffers w)(ip := None, pp := None),
                  brk := Suc (brk w),
                  refs := (refs w)(v := refs w v + 1, C := ((refs w)(v := refs w v + 1)) C - 1)\<rparr>)
      else if \<not> malloc_module_p env then Inl Null_dereference
      else
        Inr (v, w\<lparr>trace := trace w @ [Ev_read_source (c_str P), Ev_parse src (take n I)],
                  buffers := (buffers w)(ip := None),
                  brk := Suc (Suc (brk w)),
                  refs := (refs w)(v := refs w v + 2),
                  modules := (modules w)(Suc (brk w) \<mapsto>
                     \<lparr>next_p = module_head_p w, path_p = pp,
                      base_path_length = jerry_port_get_directory_end (defined_WIN32 env) P,
                      realm = C, module = v\<rparr>),
                  native := (native w)(v \<mapsto> Suc (brk w)),
                  module_head_p := Some (Suc (brk w))\<rparr>))"
proof -
  from heap have f0: "buffers w (brk w) = None" by (auto simp: dom_def)
  with pp ip have ne: "pp \<noteq> brk w" "ip \<noteq> brk w" by auto
  from read_source_ok [OF ok] have
    r: "jerry_port_read_source env (c_str P) w =
           (Some (brk w, ftell env (c_str P)),
            w\<lparr>trace := trace w @ [Ev_read_source (c_str P)],
              buffers := (buffers w)(brk w \<mapsto> src),
              brk := Suc (brk w)\<rparr>)"
    and len: "length src = ftell env (c_str P)"
    by (simp_all add: src)
  show ?thesis
    using ne f0
    by (auto simp: resolve_load_def pp ip r len v [symmetric] jerry_parse_def Let_def
          jerry_acquire_value_def jerry_release_value_def jerry_port_release_source_def
          jerry_set_object_native_pointer_def free_def fun_eq_iff
          intro!: world.equality)
qed


lemma is_record_for_cong:
  "modules w' = modules w \<Longrightarrow> buffers w' = buffers w \<Longrightarrow>
   is_record_for w' C P = is_record_for w C P"
  unfolding is_record_for_def by (intro ext) (simp split: option.splits)

lemma owns_path_cong:
  "modules w' = modules w \<Longrightarrow> buffers w' = buffers w \<Longrightarrow> owns_path w' = owns_path w"
  unfolding owns_path_def by (intro ext) (simp split: option.splits)

lemma module_lookup_loop_acquired:
  assumes "module_list (modules w) (module_head_p w) as" and "list_all (owns_path w) as"
  shows "module_lookup_loop C P (module_head_p w) (snd (jerry_acquire_value v w))
           = Some (Inr (find (is_record_for w C P) as))"
proof -
  let ?w1 = "snd (jerry_acquire_value v w)"
  have eq: "modules ?w1 = modules w" "buffers ?w1 = buffers w" by simp_all
  have "module_lookup_loop C P (module_head_p w) ?w1
          = Some (Inr (find (is_record_for ?w1 C P) as))"
    using assms by (intro module_lookup_loop_find) (simp_all add: owns_path_cong [OF eq])
  then show ?thesis by (simp only: is_record_for_cong [OF eq])
qed

lemma resolve_lookup_hit:
  assumes "module_list (modules w) (module_head_p w) as" and "list_all (owns_path w) as"
    and pp: "buffers w pp = Some P"
    and "find (is_record_for w (global_object env) P) as = Some m"
    and r: "modules w m = Some r"
  shows "resolve_lookup env ip n pp w =
           Some (Inr (module r, w\<lparr>buffers := (buffers w)(pp := None, ip := None),
                                   refs := (refs w)(module r := refs w (module r) + 1)\<rparr>))"
proof -
  have "module_lookup_loop (global_object env) P (module_head_p w)
          (snd (jerry_acquire_value (global_object env) w)) = Some (Inr (Some m))"
    using assms by (simp add: module_lookup_loop_acquired)
  then show ?thesis
    by (simp add: resolve_lookup_def jerry_get_global_object_def pp r
          jerry_acquire_value_def jerry_release_value_def free_def)
qed

lemma resolve_lookup_miss:
  assumes "module_list (modules w) (module_head_p w) as" and "list_all (owns_path w) as"
    and pp: "buffers w pp = Some P"
    and "find (is_record_for w (global_object env) P) as = None"
  shows "resolve_lookup env ip n pp w =
           Some (resolve_load env ip n pp (global_object env)
                   (w\<lparr>refs := (refs w)(global_object env := refs w (global_object env) + 1)\<rparr>))"
proof -
  have "module_lookup_loop (global_object env) P (module_head_p w)
          (snd (jerry_acquire_value (global_object env) w)) = Some (Inr None)"
    using assms by (simp add: module_lookup_loop_acquired)
  then show ?thesis
    by (simp add: resolve_lookup_def jerry_get_global_object_def pp
          jerry_acquire_value_def)
qed


lemma normalize_path_result:
  assumes ip: "buffers w ip = Some in_path"
    and bp: "bn = 0 \<or> (bp = Some b \<and> buffers w b = Some s)"
    and heap: "\<forall>a. a \<in> dom (buffers w) \<longrightarrow> a < brk w"
  shows "\<exists>res w'. jerry_port_normalize_path env (Some ip) n bp bn w = Inr (res, w')
      \<and> (res = None \<longleftrightarrow>
            \<not> malloc_in_path_pz env \<or> (0 < bn \<and> \<not> malloc_base_path_pz env)
            \<or> (bn = 0 \<and> getcwd env = None \<and> \<not> malloc_out_cwd_p env) \<or> \<not> malloc_path_p env)
      \<and> (case res of
            None \<Rightarrow> buffers w' = buffers w
          | Some p \<Rightarrow> buffers w p = None \<and>
              buffers w' = (buffers w)(p \<mapsto>
                 cwk_path_get_absolute env
                   (c_str (if 0 < bn then take bn s else cwd env))
                   (c_str (take n in_path))))"
proof -
  from heap ip have ipb: "ip < brk w" by auto
  from heap have f0: "buffers w (brk w) = None" "buffers w (Suc (brk w)) = None"
    "buffers w (Suc (Suc (brk w))) = None"
    by (auto simp: dom_def)
  show ?thesis
  proof (cases "0 < bn")
    case True
    with bp have b: "bp = Some b" "buffers w b = Some s" by auto
    with heap have bb: "b < brk w" by auto
    show ?thesis
      using True ip ipb b bb f0
      by (auto simp: jerry_port_normalize_path_def malloc_def Let_def fun_eq_iff)
  next
    case False
    then show ?thesis
      using ip ipb f0
      by (auto simp: jerry_port_normalize_path_def jerry_port_get_cwd_def malloc_def Let_def
          fun_eq_iff cwd_def split: option.splits)
  qed
qed

lemma resolve_paths_ok:
  assumes heap: "\<forall>a. a \<in> dom (buffers w) \<longrightarrow> a < brk w"
    and base: "resolve_base_path referrer w = Inr (bp, bn)"
    and valid: "bn = 0 \<or> (bp = Some b \<and> buffers w b = Some s)"
    and allocs: "malloc_in_path_p env" "malloc_in_path_pz env" "0 < bn \<longrightarrow> malloc_base_path_pz env"
      "bn = 0 \<longrightarrow> getcwd env \<noteq> None \<or> malloc_out_cwd_p env" "malloc_path_p env"
  shows "\<exists>pp w2. jerry_port_module_resolve env specifier referrer user_p w
              = resolve_lookup env (brk w) (length (utf8_string specifier)) pp w2
        \<and> brk w < pp \<and> pp < brk w2
        \<and> buffers w2 = (buffers w)(brk w \<mapsto> utf8_string specifier,
                                    pp \<mapsto> canonical_path env specifier referrer w)
        \<and> modules w2 = modules w \<and> module_head_p w2 = module_head_p w \<and> refs w2 = refs w
        \<and> native w2 = native w \<and> trace w2 = trace w
        \<and> (\<forall>a. a \<in> dom (buffers w2) \<longrightarrow> a < brk w2)"
proof -
  let ?spec = "utf8_string specifier"
  let ?w1 = "store (brk w) ?spec (snd (malloc True w))"
  have heap1: "\<forall>a. a \<in> dom (buffers ?w1) \<longrightarrow> a < brk ?w1"
    using heap by (auto simp: less_SucI)
  have ip1: "buffers ?w1 (brk w) = Some ?spec" by simp
  from valid heap have valid1: "bn = 0 \<or> (bp = Some b \<and> buffers ?w1 b = Some s)"
    by auto
  from normalize_path_result [OF ip1 valid1 heap1, of env "length ?spec"] allocs
  obtain pp w2 where
    run: "jerry_port_normalize_path env (Some (brk w)) (length ?spec) bp bn ?w1 = Inr (Some pp, w2)"
    and fresh: "buffers ?w1 pp = None"
    and bufs: "buffers w2 = (buffers ?w1)(pp \<mapsto> cwk_path_get_absolute env
                   (c_str (if 0 < bn then take bn s else cwd env)) (c_str ?spec))"
    by (auto split: option.splits)
  have ip1': "buffers ?w1 (brk w) \<noteq> None" by simp
  from normalize_path_frame0 [OF run ip1' heap1] have
    frame: "modules w2 = modules w" "module_head_p w2 = module_head_p w" "refs w2 = refs w"
      "native w2 = native w" "trace w2 = trace w" "brk ?w1 \<le> brk w2"
    and pp: "brk ?w1 \<le> pp" "pp < brk w2"
    by auto
  have canon: "canonical_path env specifier referrer w = cwk_path_get_absolute env
                   (c_str (if 0 < bn then take bn s else cwd env)) (c_str ?spec)"
    using valid by (auto simp: canonical_path_def base_directory_def base split: option.splits)
  have heap2: "\<forall>a. a \<in> dom (buffers w2) \<longrightarrow> a < brk w2"
    using heap1 frame(6) pp(2) bufs by (intro heap_bound_step [of ?w1 w2]) auto
  from pp have pp1: "brk w < pp" by simp
  have "jerry_port_module_resolve env specifier referrer user_p w
              = resolve_lookup env (brk w) (length ?spec) pp w2"
    using run allocs(1)
    by (simp add: jerry_port_module_resolve_def base jerry_get_utf8_string_size_def)
  moreover have "buffers w2 = (buffers w)(brk w \<mapsto> ?spec,
                                    pp \<mapsto> canonical_path env specifier referrer w)"
    by (simp add: bufs canon)
  ultimately show ?thesis using frame(1-5) pp1 pp(2) heap2 by blast
qed


lemma registry_ok_parts:
  assumes "registry_ok w as"
  shows "module_list (modules w) (module_head_p w) as" and "list_all (owns_path w) as"
    and "distinct (map (\<lambda>a. map_option path_p (modules w a)) as)"
    and "dom (modules w) \<subseteq> set as"
    and "\<forall>a. a \<in> dom (buffers w) \<longrightarrow> a < brk w"
    and "\<forall>a. a \<in> dom (modules w) \<longrightarrow> a < brk w"
  using assms unfolding registry_ok_def registry_def by blast+

lemma registry_ok_base_valid:
  assumes ok: "registry_ok w as" and base: "resolve_base_path referrer w = Inr (bp, bn)"
  shows "bn = 0 \<or> (\<exists>b s. bp = Some b \<and> buffers w b = Some s)"
proof (cases "jerry_get_object_native_pointer referrer w")
  case None
  with base show ?thesis by (simp add: resolve_base_path_def)
next
  case (Some a)
  with base obtain r where r: "modules w a = Some r" "bp = Some (path_p r)"
    by (auto simp: resolve_base_path_def split: option.splits)
  with registry_ok_parts(4) [OF ok] have "a \<in> set as" by auto
  with registry_ok_parts(2) [OF ok] have "owns_path w a" by (simp add: list_all_iff)
  with r show ?thesis by (auto simp: owns_path_def)
qed

lemma owned_path_below_brk:
  assumes ok: "registry_ok w as" and a: "a \<in> set as" and r: "modules w a = Some r"
  shows "path_p r < brk w"
proof -
  from registry_ok_parts(2) [OF ok] a have "owns_path w a" by (simp add: list_all_iff)
  with r have "path_p r \<in> dom (buffers w)" by (auto simp: owns_path_def)
  with registry_ok_parts(5) [OF ok] show ?thesis by blast
qed

lemma resolve_reaches_lookup:
  assumes ok: "registry_ok w as"
    and base: "resolve_base_path referrer w = Inr (bp, bn)"
    and allocs: "malloc_in_path_p env" "malloc_in_path_pz env" "0 < bn \<longrightarrow> malloc_base_path_pz env"
      "bn = 0 \<longrightarrow> getcwd env \<noteq> None \<or> malloc_out_cwd_p env" "malloc_path_p env"
  shows "\<exists>pp w2. jerry_port_module_resolve env specifier referrer user_p w
              = resolve_lookup env (brk w) (length (utf8_string specifier)) pp w2
        \<and> brk w < pp \<and> pp < brk w2
        \<and> buffers w2 = (buffers w)(brk w \<mapsto> utf8_string specifier,
                                    pp \<mapsto> canonical_path env specifier referrer w)
        \<and> modules w2 = modules w \<and> module_head_p w2 = module_head_p w \<and> refs w2 = refs w
        \<and> native w2 = native w \<and> trace w2 = trace w
        \<and> (\<forall>a. a \<in> dom (buffers w2) \<longrightarrow> a < brk w2)
        \<and> list_all (owns_path w2) as
        \<and> (\<forall>a C P. a \<in> set as \<longrightarrow> is_record_for w2 C P a = is_record_for w C P a)"
proof -
  from registry_ok_base_valid [OF ok base] obtain b s where
    valid: "bn = 0 \<or> (bp = Some b \<and> buffers w b = Some s)" by auto
  from resolve_paths_ok [OF registry_ok_parts(5) [OF ok] base valid allocs,
      of specifier user_p]
  obtain pp w2 where
    run: "jerry_port_module_resolve env specifier referrer user_p w
              = resolve_lookup env (brk w) (length (utf8_string specifier)) pp w2"
    and pp: "brk w < pp" "pp < brk w2"
    and bufs: "buffers w2 = (buffers w)(brk w \<mapsto> utf8_string specifier,
                                    pp \<mapsto> canonical_path env specifier referrer w)"
    and frame: "modules w2 = modules w" "module_head_p w2 = module_head_p w" "refs w2 = refs w"
       "native w2 = native w" "trace w2 = trace w"
    and heap2: "\<forall>a. a \<in> dom (buffers w2) \<longrightarrow> a < brk w2"
    by blast
  have same: "buffers w2 (path_p r) = buffers w (path_p r)"
    if "a \<in> set as" "modules w a = Some r" for a r
  proof -
    from owned_path_below_brk [OF ok that] pp(1) have "path_p r \<noteq> brk w" "path_p r \<noteq> pp"
      by auto
    then show ?thesis by (simp add: bufs)
  qed
  have own: "list_all (owns_path w2) as"
    unfolding list_all_iff
  proof
    fix a assume a: "a \<in> set as"
    with registry_ok_parts(2) [OF ok] have "owns_path w a" by (simp add: list_all_iff)
    then obtain r where r: "modules w a = Some r" "buffers w (path_p r) \<noteq> None"
      by (auto simp: owns_path_def split: option.splits)
    with same [OF a r(1)] show "owns_path w2 a" by (simp add: owns_path_def frame)
  qed
  have rec: "\<forall>a C P. a \<in> set as \<longrightarrow> is_record_for w2 C P a = is_record_for w C P a"
  proof (intro allI impI)
    fix a C P assume a: "a \<in> set as"
    show "is_record_for w2 C P a = is_record_for w C P a"
    proof (cases "modules w a")
      case None
      then show ?thesis by (simp add: is_record_for_def frame)
    next
      case (Some r)
      with same [OF a Some] show ?thesis by (simp add: is_record_for_def frame)
    qed
  qed
  from run pp bufs frame heap2 own rec show ?thesis
    by (intro exI [of _ pp] exI [of _ w2] conjI)
qed


lemma fresh_temporaries:
  assumes heap: "\<forall>a. a \<in> dom (buffers w) \<longrightarrow> a < brk w" and pp: "brk w < pp"
  shows "(buffers w)(brk w := None) = buffers w" and "(buffers w)(pp := None) = buffers w"
    and "(buffers w)(brk w := None, pp := None) = buffers w"
    and "(buffers w)(pp := None, brk w := None) = buffers w"
proof -
  from heap have "buffers w (brk w) = None" by (auto simp: dom_def)
  moreover from heap pp have "buffers w pp = None"
    by (metis domIff less_asym)
  ultimately show "(buffers w)(brk w := None) = buffers w" and "(buffers w)(pp := None) = buffers w"
    and "(buffers w)(brk w := None, pp := None) = buffers w"
    and "(buffers w)(pp := None, brk w := None) = buffers w"
    by (auto simp: fun_eq_iff)
qed

lemma resolve_hit:
  assumes ok: "registry_ok w as"
    and base: "resolve_base_path referrer w = Inr (bp, bn)"
    and allocs: "malloc_in_path_p env" "malloc_in_path_pz env" "0 < bn \<longrightarrow> malloc_base_path_pz env"
      "bn = 0 \<longrightarrow> getcwd env \<noteq> None \<or> malloc_out_cwd_p env" "malloc_path_p env"
    and found: "find (is_record_for w (global_object env)
                        (canonical_path env specifier referrer w)) as = Some m"
    and r: "modules w m = Some r"
  shows "\<exists>w'. jerry_port_module_resolve env specifier referrer user_p w = Some (Inr (module r, w'))
      \<and> modules w' = modules w \<and> module_head_p w' = module_head_p w \<and> buffers w' = buffers w
      \<and> refs w' = (refs w)(module r := refs w (module r) + 1)
      \<and> native w' = native w \<and> trace w' = trace w \<and> brk w \<le> brk w'"
proof -
  let ?P = "canonical_path env specifier referrer w"
  let ?C = "global_object env"
  from resolve_reaches_lookup [OF ok base allocs, of specifier user_p]
  obtain pp w2 where
    run: "jerry_port_module_resolve env specifier referrer user_p w
              = resolve_lookup env (brk w) (length (utf8_string specifier)) pp w2"
    and pp: "brk w < pp" "pp < brk w2"
    and bufs: "buffers w2 = (buffers w)(brk w \<mapsto> utf8_string specifier, pp \<mapsto> ?P)"
    and frame: "modules w2 = modules w" "module_head_p w2 = module_head_p w" "refs w2 = refs w"
       "native w2 = native w" "trace w2 = trace w"
    and own: "list_all (owns_path w2) as"
    and rec: "\<forall>a C P. a \<in> set as \<longrightarrow> is_record_for w2 C P a = is_record_for w C P a"
    by blast
  have l: "module_list (modules w2) (module_head_p w2) as"
    using registry_ok_parts(1) [OF ok] by (simp add: frame)
  have ppP: "buffers w2 pp = Some ?P" by (simp add: bufs)
  have "find (is_record_for w2 ?C ?P) as = find (is_record_for w ?C ?P) as"
    using rec by (intro find_cong_set) blast
  with found have f2: "find (is_record_for w2 ?C ?P) as = Some m" by simp
  have r2: "modules w2 m = Some r" by (simp add: frame r)
  note hit = resolve_lookup_hit [OF l own ppP f2 r2, of "brk w" "length (utf8_string specifier)"]
  let ?w' = "w2\<lparr>buffers := (buffers w2)(pp := None, brk w := None),
                 refs := (refs w2)(module r := refs w2 (module r) + 1)\<rparr>"
  have "buffers ?w' = (buffers w)(brk w := None, pp := None)"
    using pp(1) by (auto simp: bufs fun_eq_iff)
  then have b: "buffers ?w' = buffers w"
    by (simp only: fresh_temporaries(3) [OF registry_ok_parts(5) [OF ok] pp(1)])
  have "brk w \<le> brk ?w'" using pp by simp
  with run hit b frame show ?thesis
    by (intro exI [of _ ?w']) simp
qed

lemma resolve_unreadable:
  assumes ok: "registry_ok w as"
    and base: "resolve_base_path referrer w = Inr (bp, bn)"
    and allocs: "malloc_in_path_p env" "malloc_in_path_pz env" "0 < bn \<longrightarrow> malloc_base_path_pz env"
      "bn = 0 \<longrightarrow> getcwd env \<noteq> None \<or> malloc_out_cwd_p env" "malloc_path_p env"
    and P: "P = canonical_path env specifier referrer w"
    and miss: "find (is_record_for w (global_object env) P) as = None"
    and unreadable: "stat env (c_str P) = None \<or> stat env (c_str P) = Some S_IFDIR
        \<or> \<not> fopen env (c_str P) \<or> \<not> malloc_buffer_p env
        \<or> length (fread env (c_str P) (ftell env (c_str P))) \<noteq> ftell env (c_str P)"
    and E: "E = JS_error JERRY_ERROR_SYNTAX ''Module file not found''"
  shows "\<exists>w'. jerry_port_module_resolve env specifier referrer user_p w = Some (Inr (E, w'))
      \<and> modules w' = modules w \<and> module_head_p w' = module_head_p w \<and> buffers w' = buffers w
      \<and> refs w' = (refs w)(E := refs w E + 1)
      \<and> native w' = native w \<and> trace w' = trace w @ [Ev_read_source (c_str P)]
      \<and> brk w \<le> brk w'"
proof -
  let ?C = "global_object env"
  from resolve_reaches_lookup [OF ok base allocs, of specifier user_p]
  obtain pp w2 where
    run: "jerry_port_module_resolve env specifier referrer user_p w
              = resolve_lookup env (brk w) (length (utf8_string specifier)) pp w2"
    and pp: "brk w < pp" "pp < brk w2"
    and bufs: "buffers w2 = (buffers w)(brk w \<mapsto> utf8_string specifier, pp \<mapsto> P)"
    and frame: "modules w2 = modules w" "module_head_p w2 = module_head_p w" "refs w2 = refs w"
       "native w2 = native w" "trace w2 = trace w"
    and heap2: "\<forall>a. a \<in> dom (buffers w2) \<longrightarrow> a < brk w2"
    and own: "list_all (owns_path w2) as"
    and rec: "\<forall>a C P. a \<in> set as \<longrightarrow> is_record_for w2 C P a = is_record_for w C P a"
    unfolding P by blast
  have l: "module_list (modules w2) (module_head_p w2) as"
    using registry_ok_parts(1) [OF ok] by (simp add: frame)
  have ppP: "buffers w2 pp = Some P" by (simp add: bufs)
  have "find (is_record_for w2 ?C P) as = find (is_record_for w ?C P) as"
    using rec by (intro find_cong_set) blast
  with miss have f2: "find (is_record_for w2 ?C P) as = None" by simp
  let ?w3 = "w2\<lparr>refs := (refs w2)(?C := refs w2 ?C + 1)\<rparr>"
  note m = resolve_lookup_miss [OF l own ppP f2, of "brk w" "length (utf8_string specifier)"]
  from unreadable have fail: "fst (jerry_port_read_source env (c_str P) ?w3) = None"
    by (simp only: read_source_None_iff)
  have ppP3: "buffers ?w3 pp = Some P" by (simp add: bufs)
  have heap3: "\<forall>a. a \<in> dom (buffers ?w3) \<longrightarrow> a < brk ?w3" using heap2 by simp
  from resolve_load_read_fails [OF fail ppP3 heap3, of "brk w" "length (utf8_string specifier)" ?C]
  obtain w' where
    load: "resolve_load env (brk w) (length (utf8_string specifier)) pp ?C ?w3 = Inr (E, w')"
    and f: "modules w' = modules ?w3" "module_head_p w' = module_head_p ?w3"
      "buffers w' = (buffers ?w3)(pp := None, brk w := None)"
      "refs w' = ((refs ?w3)(?C := refs ?w3 ?C - 1))(E := ((refs ?w3)(?C := refs ?w3 ?C - 1)) E + 1)"
      "native w' = native ?w3" "trace w' = trace ?w3 @ [Ev_read_source (c_str P)]"
      "brk ?w3 \<le> brk w'"
    unfolding E by blast
  have "buffers w' = (buffers w)(brk w := None, pp := None)"
    using pp(1) by (auto simp: f(3) bufs fun_eq_iff)
  then have b: "buffers w' = buffers w"
    by (simp only: fresh_temporaries(3) [OF registry_ok_parts(5) [OF ok] pp(1)])
  have rf: "refs w' = (refs w)(E := refs w E + 1)"
    by (auto simp: f(4) frame fun_eq_iff)
  have "brk w \<le> brk w'" using pp f(7) by simp
  with run m load b rf f(1,2,5,6) frame show ?thesis
    by (intro exI [of _ w']) simp
qed


lemma resolve_parsed:
  assumes ok: "registry_ok w as"
    and base: "resolve_base_path referrer w = Inr (bp, bn)"
    and allocs: "malloc_in_path_p env" "malloc_in_path_pz env" "0 < bn \<longrightarrow> malloc_base_path_pz env"
      "bn = 0 \<longrightarrow> getcwd env \<noteq> None \<or> malloc_out_cwd_p env" "malloc_path_p env"
    and P: "P = canonical_path env specifier referrer w"
    and miss: "find (is_record_for w (global_object env) P) as = None"
    and readable: "\<not> (stat env (c_str P) = None \<or> stat env (c_str P) = Some S_IFDIR
        \<or> \<not> fopen env (c_str P) \<or> \<not> malloc_buffer_p env
        \<or> length (fread env (c_str P) (ftell env (c_str P))) \<noteq> ftell env (c_str P))"
    and src: "src = fread env (c_str P) (ftell env (c_str P))"
    and v: "v = parse env src (utf8_string specifier)"
    and C: "C = global_object env"
    and tr: "tr = trace w @ [Ev_read_source (c_str P), Ev_parse src (utf8_string specifier)]"
  shows "jerry_value_is_error v \<Longrightarrow>
      \<exists>w'. jerry_port_module_resolve env specifier referrer user_p w = Some (Inr (v, w'))
        \<and> modules w' = modules w \<and> module_head_p w' = module_head_p w \<and> buffers w' = buffers w
        \<and> refs w' = (refs w)(v := refs w v + 1)
        \<and> native w' = native w \<and> trace w' = tr \<and> brk w \<le> brk w'"
    and "\<not> jerry_value_is_error v \<Longrightarrow> \<not> malloc_module_p env \<Longrightarrow>
      jerry_port_module_resolve env specifier referrer user_p w = Some (Inl Null_dereference)"
    and "\<not> jerry_value_is_error v \<Longrightarrow> malloc_module_p env \<Longrightarrow>
      \<exists>w' pp new. jerry_port_module_resolve env specifier referrer user_p w = Some (Inr (v, w'))
        \<and> module_head_p w' = Some new
        \<and> modules w' = (modules w)(new \<mapsto>
             \<lparr>next_p = module_head_p w, path_p = pp,
              base_path_length = jerry_port_get_directory_end (defined_WIN32 env) P,
              realm = C, module = v\<rparr>)
        \<and> buffers w' = (buffers w)(pp \<mapsto> P)
        \<and> brk w < pp \<and> pp < new \<and> new < brk w'
        \<and> refs w' = ((refs w)(C := refs w C + 1))(v := ((refs w)(C := refs w C + 1)) v + 2)
        \<and> native w' = (native w)(v \<mapsto> new) \<and> trace w' = tr"
proof -
  let ?spec = "utf8_string specifier"
  from resolve_reaches_lookup [OF ok base allocs, of specifier user_p]
  obtain pp w2 where
    run: "jerry_port_module_resolve env specifier referrer user_p w
              = resolve_lookup env (brk w) (length ?spec) pp w2"
    and pp: "brk w < pp" "pp < brk w2"
    and bufs: "buffers w2 = (buffers w)(brk w \<mapsto> ?spec, pp \<mapsto> P)"
    and frame: "modules w2 = modules w" "module_head_p w2 = module_head_p w" "refs w2 = refs w"
       "native w2 = native w" "trace w2 = trace w"
    and heap2: "\<forall>a. a \<in> dom (buffers w2) \<longrightarrow> a < brk w2"
    and own: "list_all (owns_path w2) as"
    and rec: "\<forall>a C P. a \<in> set as \<longrightarrow> is_record_for w2 C P a = is_record_for w C P a"
    unfolding P by blast
  have l: "module_list (modules w2) (module_head_p w2) as"
    using registry_ok_parts(1) [OF ok] by (simp add: frame)
  have ppP: "buffers w2 pp = Some P" by (simp add: bufs)
  have "find (is_record_for w2 C P) as = find (is_record_for w C P) as"
    using rec by (intro find_cong_set) blast
  with miss have f2: "find (is_record_for w2 (global_object env) P) as = None" by (simp add: C)
  let ?w3 = "w2\<lparr>refs := (refs w2)(C := refs w2 C + 1)\<rparr>"
  from resolve_lookup_miss [OF l own ppP f2, of "brk w" "length ?spec"]
  have m: "resolve_lookup env (brk w) (length ?spec) pp w2
             = Some (resolve_load env (brk w) (length ?spec) pp C ?w3)"
    by (simp add: C)
  from readable have rd: "fst (jerry_port_read_source env (c_str P) ?w3) \<noteq> None"
    by (simp only: read_source_None_iff not_False_eq_True)
  have ppP3: "buffers ?w3 pp = Some P" by (simp add: bufs)
  have ip3: "buffers ?w3 (brk w) = Some ?spec" using pp(1) by (simp add: bufs)
  have heap3: "\<forall>a. a \<in> dom (buffers ?w3) \<longrightarrow> a < brk ?w3" using heap2 by simp
  have v': "v = parse env src (take (length ?spec) ?spec)" by (simp add: v)
  note ld = resolve_load_parsed [OF rd ppP3 ip3 heap3 src v', of C, unfolded take_all [OF le_refl]]
  have fresh: "(buffers w)(brk w := None, pp := None) = buffers w"
    by (rule fresh_temporaries(3) [OF registry_ok_parts(5) [OF ok] pp(1)])
  have fresh1: "(buffers w)(brk w := None) = buffers w"
    by (rule fresh_temporaries(1) [OF registry_ok_parts(5) [OF ok] pp(1)])
  {
    assume err: "jerry_value_is_error v"
    let ?w' = "?w3\<lparr>trace := trace ?w3 @ [Ev_read_source (c_str P), Ev_parse src ?spec],
                  buffers := (buffers ?w3)(brk w := None, pp := None),
                  brk := Suc (brk ?w3),
                  refs := (refs ?w3)(v := refs ?w3 v + 1, C := ((refs ?w3)(v := refs ?w3 v + 1)) C - 1)\<rparr>"
    from ld err have load: "resolve_load env (brk w) (length ?spec) pp C ?w3 = Inr (v, ?w')"
      by simp
    have "buffers ?w' = (buffers w)(brk w := None, pp := None)"
      using pp(1) by (auto simp: bufs fun_eq_iff)
    with fresh have b: "buffers ?w' = buffers w" by simp
    have rf: "refs ?w' = (refs w)(v := refs w v + 1)"
      by (auto simp: frame fun_eq_iff)
    have "brk w \<le> brk ?w'" using pp by simp
    with run m load b rf frame tr
    show "\<exists>w'. jerry_port_module_resolve env specifier referrer user_p w = Some (Inr (v, w'))
        \<and> modules w' = modules w \<and> module_head_p w' = module_head_p w \<and> buffers w' = buffers w
        \<and> refs w' = (refs w)(v := refs w v + 1)
        \<and> native w' = native w \<and> trace w' = tr \<and> brk w \<le> brk w'"
      by (intro exI [of _ ?w']) simp
  }
  {
    assume "\<not> jerry_value_is_error v" "\<not> malloc_module_p env"
    with ld run m
    show "jerry_port_module_resolve env specifier referrer user_p w = Some (Inl Null_dereference)"
      by simp
  }
  {
    assume good: "\<not> jerry_value_is_error v" "malloc_module_p env"
    let ?new = "Suc (brk ?w3)"
    let ?w' = "?w3\<lparr>trace := trace ?w3 @ [Ev_read_source (c_str P), Ev_parse src ?spec],
                  buffers := (buffers ?w3)(brk w := None),
                  brk := Suc (Suc (brk ?w3)),
                  refs := (refs ?w3)(v := refs ?w3 v + 2),
                  modules := (modules ?w3)(Suc (brk ?w3) \<mapsto>
                     \<lparr>next_p = module_head_p ?w3, path_p = pp,
                      base_path_length = jerry_port_get_directory_end (defined_WIN32 env) P,
                      realm = C, module = v\<rparr>),
                  native := (native ?w3)(v \<mapsto> Suc (brk ?w3)),
                  module_head_p := Some (Suc (brk ?w3))\<rparr>"
    from ld good have load: "resolve_load env (brk w) (length ?spec) pp C ?w3 = Inr (v, ?w')"
      by simp
    have "buffers ?w' = ((buffers w)(brk w := None))(pp \<mapsto> P)"
      using pp(1) by (auto simp: bufs fun_eq_iff)
    with fresh1 have b: "buffers ?w' = (buffers w)(pp \<mapsto> P)" by simp
    have rf: "refs ?w' = ((refs w)(C := refs w C + 1))(v := ((refs w)(C := refs w C + 1)) v + 2)"
      by (simp add: frame)
    have ord: "brk w < pp \<and> pp < ?new \<and> ?new < brk ?w'" using pp by simp
    from run m load b rf frame tr ord
    show "\<exists>w' pp new. jerry_port_module_resolve env specifier referrer user_p w = Some (Inr (v, w'))
        \<and> module_head_p w' = Some new
        \<and> modules w' = (modules w)(new \<mapsto>
             \<lparr>next_p = module_head_p w, path_p = pp,
              base_path_length = jerry_port_get_directory_end (defined_WIN32 env) P,
              realm = C, module = v\<rparr>)
        \<and> buffers w' = (buffers w)(pp \<mapsto> P)
        \<and> brk w < pp \<and> pp < new \<and> new < brk w'
        \<and> refs w' = ((refs w)(C := refs w C + 1))(v := ((refs w)(C := refs w C + 1)) v + 2)
        \<and> native w' = (native w)(v \<mapsto> new) \<and> trace w' = tr"
      by (intro exI [of _ ?w'] exI [of _ pp] exI [of _ ?new]) simp
  }
qed


lemma resolve_in_path_null:
  "resolve_base_path referrer w = Inr b \<Longrightarrow> \<not> malloc_in_path_p env \<Longrightarrow>
   jerry_port_module_resolve env specifier referrer user_p w = Some (Inl Null_dereference)"
  by (cases b) (simp add: jerry_port_module_resolve_def)

lemma resolve_out_of_memory:
  assumes ok: "registry_ok w as"
    and base: "resolve_base_path referrer w = Inr (bp, bn)"
    and a1: "malloc_in_path_p env"
    and fail: "\<not> malloc_in_path_pz env \<or> (0 < bn \<and> \<not> malloc_base_path_pz env)
            \<or> (bn = 0 \<and> getcwd env = None \<and> \<not> malloc_out_cwd_p env) \<or> \<not> malloc_path_p env"
    and E: "E = JS_error JERRY_ERROR_COMMON ''Out of memory''"
  shows "\<exists>w'. jerry_port_module_resolve env specifier referrer user_p w = Some (Inr (E, w'))
      \<and> modules w' = modules w \<and> module_head_p w' = module_head_p w
      \<and> buffers w' = (buffers w)(brk w \<mapsto> utf8_string specifier)
      \<and> refs w' = (refs w)(E := refs w E + 1)
      \<and> native w' = native w \<and> trace w' = trace w \<and> brk w < brk w'"
proof -
  let ?spec = "utf8_string specifier"
  let ?w1 = "store (brk w) ?spec (snd (malloc True w))"
  note heap = registry_ok_parts(5) [OF ok]
  have heap1: "\<forall>a. a \<in> dom (buffers ?w1) \<longrightarrow> a < brk ?w1"
    using heap by (auto simp: less_SucI)
  have ip1: "buffers ?w1 (brk w) = Some ?spec" by simp
  from registry_ok_base_valid [OF ok base] obtain b s where
    valid: "bn = 0 \<or> (bp = Some b \<and> buffers w b = Some s)" by auto
  with heap have valid1: "bn = 0 \<or> (bp = Some b \<and> buffers ?w1 b = Some s)"
    by auto
  from normalize_path_result [OF ip1 valid1 heap1, of env "length ?spec"] fail
  obtain w2 where
    run: "jerry_port_normalize_path env (Some (brk w)) (length ?spec) bp bn ?w1 = Inr (None, w2)"
    and bufs: "buffers w2 = buffers ?w1"
    by (auto split: option.splits)
  have ip1': "buffers ?w1 (brk w) \<noteq> None" by simp
  from normalize_path_frame0 [OF run ip1' heap1] have
    frame: "modules w2 = modules w" "module_head_p w2 = module_head_p w" "refs w2 = refs w"
      "native w2 = native w" "trace w2 = trace w" "brk ?w1 \<le> brk w2"
    by auto
  let ?w' = "snd (jerry_create_error JERRY_ERROR_COMMON ''Out of memory'' w2)"
  have "jerry_port_module_resolve env specifier referrer user_p w = Some (Inr (E, ?w'))"
    using run a1
    by (simp add: jerry_port_module_resolve_def base jerry_get_utf8_string_size_def
          jerry_create_error_def jerry_acquire_value_def E)
  moreover have "buffers ?w' = (buffers w)(brk w \<mapsto> ?spec)"
    by (simp add: jerry_create_error_def bufs)
  moreover have "refs ?w' = (refs w)(E := refs w E + 1)"
    by (simp add: jerry_create_error_def frame E)
  moreover have "brk w < brk ?w'" using frame(6) by (simp add: jerry_create_error_def)
  ultimately show ?thesis using frame(1,2,4,5)
    by (intro exI [of _ ?w']) (simp add: jerry_create_error_def)
qed


subsection \<open>The directory end\<close>

lemma directory_end_loop_le: "directory_end_loop win32 p n \<le> n"
  by (induction n) auto

lemma directory_end_loop_none:
  "(\<forall>i<n. \<not> is_separator win32 (p ! i)) \<Longrightarrow> directory_end_loop win32 p n = 0"
  by (induction n) auto

lemma directory_end_loop_last:
  "i < n \<Longrightarrow> is_separator win32 (p ! i) \<Longrightarrow> \<forall>j. i < j \<and> j < n \<longrightarrow> \<not> is_separator win32 (p ! j)
   \<Longrightarrow> directory_end_loop win32 p n = Suc i"
proof (induction n)
  case 0
  then show ?case by simp
next
  case (Suc n)
  show ?case
  proof (cases "i = n")
    case True
    with Suc.prems show ?thesis by simp
  next
    case False
    with Suc.prems have "i < n" and "\<not> is_separator win32 (p ! n)" by auto
    with Suc show ?thesis by simp
  qed
qed

text \<open>
  C7. For every path, \<^verbatim>\<open>jerry_port_get_directory_end\<close> returns the offset just past the
  last separator of the C string (\<^verbatim>\<open>'/'\<close> only without \<^verbatim>\<open>_WIN32\<close>, \<^verbatim>\<open>'/'\<close> and the backslash
  with it), and 0 when the string has no separator; the directory end of
  \<^verbatim>\<open>"/a/b/c.js"\<close> is 5 and that of \<^verbatim>\<open>"bare.js"\<close> is 0.
\<close>

theorem directory_end_correct:
  "(\<forall>i. i < strlen p \<and> is_separator win32 (p ! i)
        \<and> (\<forall>j. i < j \<and> j < strlen p \<longrightarrow> \<not> is_separator win32 (p ! j))
      \<longrightarrow> jerry_port_get_directory_end win32 p = Suc i)
   \<and> ((\<forall>i<strlen p. \<not> is_separator win32 (p ! i)) \<longrightarrow> jerry_port_get_directory_end win32 p = 0)
   \<and> (\<forall>c. is_separator False c \<longleftrightarrow> c = CHR ''/'')
   \<and> (\<forall>c. is_separator True c \<longleftrightarrow> c = CHR ''/'' \<or> c = CHR 0x5C)
   \<and> jerry_port_get_directory_end False ''/a/b/c.js'' = 5
   \<and> jerry_port_get_directory_end False ''bare.js'' = 0"
proof -
  have a: "\<forall>i. i < strlen p \<and> is_separator win32 (p ! i)
        \<and> (\<forall>j. i < j \<and> j < strlen p \<longrightarrow> \<not> is_separator win32 (p ! j))
      \<longrightarrow> jerry_port_get_directory_end win32 p = Suc i"
    unfolding jerry_port_get_directory_end_def
    by (intro allI impI) (rule directory_end_loop_last, simp_all)
  have b: "(\<forall>i<strlen p. \<not> is_separator win32 (p ! i)) \<longrightarrow> jerry_port_get_directory_end win32 p = 0"
    unfolding jerry_port_get_directory_end_def
    by (intro impI) (rule directory_end_loop_none, simp)
  have c: "jerry_port_get_directory_end False ''/a/b/c.js'' = 5"
    by (simp add: jerry_port_get_directory_end_def strlen_def c_str_def is_separator_def
        eval_nat_numeral)
  have d: "jerry_port_get_directory_end False ''bare.js'' = 0"
    by (simp add: jerry_port_get_directory_end_def strlen_def c_str_def is_separator_def
        eval_nat_numeral)
  show ?thesis using a b c d by (simp add: is_separator_def)
qed

theorem directory_end_correct_witness:
  "3 < strlen [CHR ''a'', CHR ''/'', CHR ''b'', CHR 0x5C, CHR ''c'']
   \<and> is_separator True ([CHR ''a'', CHR ''/'', CHR ''b'', CHR 0x5C, CHR ''c''] ! 3)
   \<and> jerry_port_get_directory_end True [CHR ''a'', CHR ''/'', CHR ''b'', CHR 0x5C, CHR ''c''] = 4
   \<and> strlen ''abc'' = 3
   \<and> jerry_port_get_directory_end False ''abc'' = 0"
proof -
  let ?p = "[CHR ''a'', CHR ''/'', CHR ''b'', CHR 0x5C, CHR ''c'']"
  have len: "strlen ?p = 5" by (simp add: strlen_def c_str_def)
  have len3: "3 < strlen ?p" by (simp add: len)
  have sep: "is_separator True (?p ! 3)" by (simp add: is_separator_def)
  have "\<And>j. 3 < j \<Longrightarrow> j < 5 \<Longrightarrow> j = (4::nat)" by arith
  then have after: "\<forall>j. 3 < j \<and> j < strlen ?p \<longrightarrow> \<not> is_separator True (?p ! j)"
    by (auto simp: len is_separator_def)
  have r1: "jerry_port_get_directory_end True ?p = Suc 3"
    using directory_end_correct [of ?p True] len3 sep after by blast
  have len2: "strlen ''abc'' = 3" by (simp add: strlen_def c_str_def)
  have none: "\<forall>i<strlen ''abc''. \<not> is_separator False (''abc'' ! i)"
    by (auto simp: len2 is_separator_def numeral_3_eq_3 less_Suc_eq)
  have r2: "jerry_port_get_directory_end False ''abc'' = 0"
    using directory_end_correct [of "''abc''" False] none by blast
  show ?thesis using len sep r1 len2 r2 by simp
qed


subsection \<open>Releasing the modules of a realm\<close>

lemma example_world_ok: "registry_ok example_world [2, 4]"
  by (simp add: registry_ok_def registry_def example_world_def owns_path_def)

text \<open>
  C3. For a well-formed registry and two distinct contexts \<open>C1\<close> (an object) and \<open>C2\<close>,
  \<^verbatim>\<open>jerry_port_module_release (C1)\<close> runs to completion; afterwards the scan of the list finds
  no record of \<open>C1\<close> for any path, every descriptor of \<open>C1\<close> and its path buffer are freed
  and its two references given back, and every descriptor of \<open>C2\<close> is still in the list
  with the same path, base path length, realm and module and is found as before.
\<close>

theorem release_scoped:
  assumes "registry_ok w as" and "jerry_value_is_object C1" and "C1 \<noteq> C2"
  shows "\<exists>w'. jerry_port_module_release C1 w = Some (Inr w')
      \<and> registry_ok w' (filter (\<lambda>a. \<not> released False C1 w a) as)
      \<and> (\<forall>P. module_lookup_loop C1 P (module_head_p w') w' = Some (Inr None))
      \<and> (\<forall>P. module_lookup_loop C2 P (module_head_p w') w'
                = module_lookup_loop C2 P (module_head_p w) w)
      \<and> (\<forall>a r. a \<in> set as \<and> modules w a = Some r \<and> realm r = C1
              \<longrightarrow> modules w' a = None \<and> buffers w' (path_p r) = None)
      \<and> (\<forall>a r. a \<in> set as \<and> modules w a = Some r \<and> realm r = C2
              \<longrightarrow> (\<exists>r'. modules w' a = Some r' \<and> payload r' = payload r
                        \<and> buffers w' (path_p r) = buffers w (path_p r)))
      \<and> (\<forall>v. refs w' v = refs w v - refs_held w (filter (released False C1 w) as) v)
      \<and> brk w' = brk w \<and> native w' = native w \<and> trace w' = trace w"
  using assms by (rule release_scoped_lemma)

theorem release_scoped_witness:
  "registry_ok example_world [2, 4] \<and> jerry_value_is_object (JS_object 1)
   \<and> JS_object 1 \<noteq> JS_object 2
   \<and> (\<exists>w'. jerry_port_module_release (JS_object 1) example_world = Some (Inr w')
          \<and> registry w' [4]
          \<and> module_lookup_loop (JS_object 1) ''/a.js'' (module_head_p w') w' = Some (Inr None)
          \<and> module_lookup_loop (JS_object 2) ''/b.js'' (module_head_p w') w' = Some (Inr (Some 4))
          \<and> modules w' 2 = None \<and> buffers w' 1 = None
          \<and> map_option payload (modules w' 4) = Some (3, 1, JS_object 2, JS_object 12)
          \<and> buffers w' 3 = Some ''/b.js''
          \<and> refs w' (JS_object 1) = 0 \<and> refs w' (JS_object 11) = 0
          \<and> refs w' (JS_object 2) = 1 \<and> refs w' (JS_object 12) = 1)"
proof -
  let ?w = example_world
  have ne: "JS_object 1 \<noteq> JS_object 2" by simp
  have obj: "jerry_value_is_object (JS_object 1)" by simp
  have m2: "modules ?w 2 = Some \<lparr>next_p = Some 4, path_p = 1, base_path_length = 1,
                        realm = JS_object 1, module = JS_object 11\<rparr>"
    and m4: "modules ?w 4 = Some \<lparr>next_p = None, path_p = 3, base_path_length = 1,
                        realm = JS_object 2, module = JS_object 12\<rparr>"
    by (simp_all add: example_world_def)
  have ks: "filter (\<lambda>a. \<not> released False (JS_object 1) ?w a) [2, 4] = [4]"
    and rs: "filter (released False (JS_object 1) ?w) [2, 4] = [2]"
    by (simp_all add: released_def m2 m4)
  have before: "module_lookup_loop (JS_object 2) ''/b.js'' (module_head_p ?w) ?w = Some (Inr (Some 4))"
    by (simp add: registry_ok_lookup [OF example_world_ok] is_record_for_def m2 m4 strcmp_def)
       (simp add: example_world_def strcmp_def)
  from release_scoped [OF example_world_ok obj ne] obtain w' where
    run: "jerry_port_module_release (JS_object 1) ?w = Some (Inr w')"
    and ok': "registry_ok w' (filter (\<lambda>a. \<not> released False (JS_object 1) ?w a) [2, 4])"
    and l1: "\<forall>P. module_lookup_loop (JS_object 1) P (module_head_p w') w' = Some (Inr None)"
    and l2: "\<forall>P. module_lookup_loop (JS_object 2) P (module_head_p w') w'
                = module_lookup_loop (JS_object 2) P (module_head_p ?w) ?w"
    and gone: "\<forall>a r. a \<in> set [2, 4] \<and> modules ?w a = Some r \<and> realm r = JS_object 1
              \<longrightarrow> modules w' a = None \<and> buffers w' (path_p r) = None"
    and kept: "\<forall>a r. a \<in> set [2, 4] \<and> modules ?w a = Some r \<and> realm r = JS_object 2
              \<longrightarrow> (\<exists>r'. modules w' a = Some r' \<and> payload r' = payload r
                        \<and> buffers w' (path_p r) = buffers ?w (path_p r))"
    and refs': "\<forall>v. refs w' v = refs ?w v
                  - refs_held ?w (filter (released False (JS_object 1) ?w) [2, 4]) v"
    by blast
  from ok' have "registry_ok w' [4]" unfolding ks .
  then have c1: "registry w' [4]" unfolding registry_ok_def by (elim conjE)
  from l1 have c2: "module_lookup_loop (JS_object 1) ''/a.js'' (module_head_p w') w' = Some (Inr None)"
    by blast
  from l2 before have c3: "module_lookup_loop (JS_object 2) ''/b.js'' (module_head_p w') w'
                            = Some (Inr (Some 4))" by simp
  let ?r2 = "\<lparr>next_p = Some 4, path_p = 1, base_path_length = 1,
                        realm = JS_object 1, module = JS_object 11\<rparr>"
  let ?r4 = "\<lparr>next_p = None, path_p = 3, base_path_length = 1,
                        realm = JS_object 2, module = JS_object 12\<rparr>"
  from gone [rule_format, of 2 ?r2] m2
  have c4: "modules w' 2 = None \<and> buffers w' 1 = None" by simp
  from kept [rule_format, of 4 ?r4] m4 obtain r' where
    "modules w' 4 = Some r'" "payload r' = payload ?r4" "buffers w' 3 = buffers ?w 3"
    by auto
  then have c5: "map_option payload (modules w' 4) = Some (3, 1, JS_object 2, JS_object 12)
          \<and> buffers w' 3 = Some ''/b.js''"
    by (simp add: payload_def example_world_def)
  from refs' have "\<forall>v. refs w' v = refs ?w v - refs_held ?w [2] v" unfolding rs .
  then have c6: "refs w' (JS_object 1) = 0 \<and> refs w' (JS_object 11) = 0
          \<and> refs w' (JS_object 2) = 1 \<and> refs w' (JS_object 12) = 1"
    by (simp add: refs_held_def m2) (simp add: example_world_def)
  from run c1 c2 c3 c4 c5 c6
  have "\<exists>w'. jerry_port_module_release (JS_object 1) example_world = Some (Inr w')
          \<and> registry w' [4]
          \<and> module_lookup_loop (JS_object 1) ''/a.js'' (module_head_p w') w' = Some (Inr None)
          \<and> module_lookup_loop (JS_object 2) ''/b.js'' (module_head_p w') w' = Some (Inr (Some 4))
          \<and> modules w' 2 = None \<and> buffers w' 1 = None
          \<and> map_option payload (modules w' 4) = Some (3, 1, JS_object 2, JS_object 12)
          \<and> buffers w' 3 = Some ''/b.js''
          \<and> refs w' (JS_object 1) = 0 \<and> refs w' (JS_object 11) = 0
          \<and> refs w' (JS_object 2) = 1 \<and> refs w' (JS_object 12) = 1"
    by (intro exI [of _ w']) simp
  with example_world_ok obj ne show ?thesis by (intro conjI)
qed



lemma release_filter_lemma:
  assumes ok: "registry_ok w as"
  shows "\<exists>w'. jerry_port_module_release v w = Some (Inr w')
      \<and> registry_ok w' (filter (\<lambda>a. \<not> released (\<not> jerry_value_is_object v) v w a) as)
      \<and> (\<not> jerry_value_is_object v \<longrightarrow> module_head_p w' = None \<and> modules w' = Map.empty)
      \<and> (\<forall>a r. a \<in> set as \<and> modules w a = Some r
                  \<and> (jerry_value_is_object v \<longrightarrow> realm r = v)
              \<longrightarrow> modules w' a = None \<and> buffers w' (path_p r) = None)
      \<and> (\<forall>a r. a \<in> set as \<and> modules w a = Some r
                  \<and> jerry_value_is_object v \<and> realm r \<noteq> v
              \<longrightarrow> (\<exists>r'. modules w' a = Some r' \<and> payload r' = payload r
                        \<and> buffers w' (path_p r) = buffers w (path_p r)))"
proof -
  let ?ra = "\<not> jerry_value_is_object v"
  let ?ks = "filter (\<lambda>a. \<not> released ?ra v w a) as"
  from ok have reg: "registry w as" unfolding registry_ok_def by (elim conjE)
  from module_free_correct [OF reg, of v] obtain w' where
    run: "jerry_port_module_release v w = Some (Inr w')"
    and post: "free_post ?ra v w [] as w'"
    by (auto simp: jerry_port_module_release_def)
  have ok': "registry_ok w' ?ks" by (rule registry_ok_free [OF post ok])
  from reg have live: "modules w a \<noteq> None" if "a \<in> set as" for a
    using that unfolding registry_def by (rule module_list_live)
  have all: "?ra \<longrightarrow> module_head_p w' = None \<and> modules w' = Map.empty"
  proof
    assume ra: ?ra
    have "released ?ra v w a" if "a \<in> set as" for a
      using live [OF that] ra by (auto simp: released_def)
    then have "?ks = []" by (simp add: filter_empty_conv)
    with ok' have e: "registry_ok w' []" by simp
    then have "registry w' []" unfolding registry_ok_def by (elim conjE)
    then have h: "module_head_p w' = None" by (simp add: registry_def)
    from e have "dom (modules w') \<subseteq> set []" unfolding registry_ok_def by (elim conjE)
    then have "modules w' = Map.empty" by simp
    with h show "module_head_p w' = None \<and> modules w' = Map.empty" by simp
  qed
  have gone: "modules w' a = None \<and> buffers w' (path_p r) = None"
    if "a \<in> set as \<and> modules w a = Some r \<and> (jerry_value_is_object v \<longrightarrow> realm r = v)" for a r
  proof -
    from that have rel: "released ?ra v w a" by (auto simp: released_def)
    with that have "modules w' a = None" by (intro free_post_gone [OF post]) simp_all
    moreover from that rel
    have "\<exists>a\<in>set as. released ?ra v w a \<and> map_option path_p (modules w a) = Some (path_p r)"
      by auto
    then have "buffers w' (path_p r) = None"
      by (simp only: free_post_buffers [OF post] if_True)
    ultimately show ?thesis by simp
  qed
  have kept: "\<exists>r'. modules w' a = Some r' \<and> payload r' = payload r
                \<and> buffers w' (path_p r) = buffers w (path_p r)"
    if "a \<in> set as \<and> modules w a = Some r \<and> jerry_value_is_object v \<and> realm r \<noteq> v" for a r
  proof -
    from that have "a \<in> set as" "\<not> released ?ra v w a" by (auto simp: released_def)
    from free_post_kept [OF post ok this] that show ?thesis by auto
  qed
  from gone have gone': "\<forall>a r. a \<in> set as \<and> modules w a = Some r
                  \<and> (jerry_value_is_object v \<longrightarrow> realm r = v)
              \<longrightarrow> modules w' a = None \<and> buffers w' (path_p r) = None" by (intro allI impI)
  from kept have kept': "\<forall>a r. a \<in> set as \<and> modules w a = Some r
                  \<and> jerry_value_is_object v \<and> realm r \<noteq> v
              \<longrightarrow> (\<exists>r'. modules w' a = Some r' \<and> payload r' = payload r
                        \<and> buffers w' (path_p r) = buffers w (path_p r))" by (intro allI impI)
  from run ok' all gone' kept' show ?thesis by (intro exI [of _ w'] conjI)
qed

text \<open>
  C10. \<^verbatim>\<open>jerry_port_module_release (v)\<close> selects its mode by the kind of \<open>v\<close>: for every
  \<open>v\<close> that is not an object (undefined, null, a boolean, a number, a string, an error)
  every descriptor of the list is released and the list is left empty, whatever the realms;
  for an object \<open>v\<close> exactly the descriptors whose realm is \<open>v\<close> are released and the others
  stay.
\<close>

theorem release_mode_by_kind:
  assumes "registry_ok w as"
  shows "(\<exists>w'. jerry_port_module_release v w = Some (Inr w')
      \<and> registry_ok w' (filter (\<lambda>a. \<not> released (\<not> jerry_value_is_object v) v w a) as)
      \<and> (\<not> jerry_value_is_object v \<longrightarrow> module_head_p w' = None \<and> modules w' = Map.empty)
      \<and> (\<forall>a r. a \<in> set as \<and> modules w a = Some r
                  \<and> (jerry_value_is_object v \<longrightarrow> realm r = v)
              \<longrightarrow> modules w' a = None \<and> buffers w' (path_p r) = None)
      \<and> (\<forall>a r. a \<in> set as \<and> modules w a = Some r
                  \<and> jerry_value_is_object v \<and> realm r \<noteq> v
              \<longrightarrow> (\<exists>r'. modules w' a = Some r' \<and> payload r' = payload r
                        \<and> buffers w' (path_p r) = buffers w (path_p r))))
    \<and> \<not> jerry_value_is_object JS_undefined \<and> \<not> jerry_value_is_object JS_null
    \<and> \<not> jerry_value_is_object (JS_boolean b) \<and> \<not> jerry_value_is_object (JS_number n)
    \<and> \<not> jerry_value_is_object (JS_string s) \<and> \<not> jerry_value_is_object (JS_error t msg)
    \<and> jerry_value_is_object (JS_object i)"
  using release_filter_lemma [OF assms, of v] by simp

theorem release_mode_by_kind_witness:
  "registry_ok example_world [2, 4]
   \<and> (\<exists>w'. jerry_port_module_release JS_undefined example_world = Some (Inr w')
          \<and> module_head_p w' = None \<and> modules w' = Map.empty
          \<and> buffers w' 1 = None \<and> buffers w' 3 = None)
   \<and> (\<exists>w'. jerry_port_module_release (JS_object 2) example_world = Some (Inr w')
          \<and> modules w' 4 = None \<and> buffers w' 3 = None
          \<and> map_option payload (modules w' 2) = Some (1, 1, JS_object 1, JS_object 11)
          \<and> buffers w' 1 = Some ''/a.js'')"
proof -
  let ?w = example_world
  let ?r2 = "\<lparr>next_p = Some 4, path_p = 1, base_path_length = 1,
                        realm = JS_object 1, module = JS_object 11\<rparr>"
  let ?r4 = "\<lparr>next_p = None, path_p = 3, base_path_length = 1,
                        realm = JS_object 2, module = JS_object 12\<rparr>"
  have m2: "modules ?w 2 = Some ?r2" and m4: "modules ?w 4 = Some ?r4"
    by (simp_all add: example_world_def)
  from release_mode_by_kind [OF example_world_ok, of JS_undefined] obtain w1 where
    run1: "jerry_port_module_release JS_undefined ?w = Some (Inr w1)"
    and all1: "module_head_p w1 = None \<and> modules w1 = Map.empty"
    and gone1: "\<forall>a r. a \<in> set [2, 4] \<and> modules ?w a = Some r
                  \<and> (jerry_value_is_object JS_undefined \<longrightarrow> realm r = JS_undefined)
              \<longrightarrow> modules w1 a = None \<and> buffers w1 (path_p r) = None"
    by auto
  from gone1 [rule_format, of 2 ?r2] m2 have b1: "buffers w1 1 = None" by simp
  from gone1 [rule_format, of 4 ?r4] m4 have b3: "buffers w1 3 = None" by simp
  from run1 all1 b1 b3
  have A: "\<exists>w'. jerry_port_module_release JS_undefined example_world = Some (Inr w')
          \<and> module_head_p w' = None \<and> modules w' = Map.empty
          \<and> buffers w' 1 = None \<and> buffers w' 3 = None"
    by (intro exI [of _ w1]) simp
  from release_mode_by_kind [OF example_world_ok, of "JS_object 2"] obtain w2 where
    run2: "jerry_port_module_release (JS_object 2) ?w = Some (Inr w2)"
    and gone2: "\<forall>a r. a \<in> set [2, 4] \<and> modules ?w a = Some r
                  \<and> (jerry_value_is_object (JS_object 2) \<longrightarrow> realm r = JS_object 2)
              \<longrightarrow> modules w2 a = None \<and> buffers w2 (path_p r) = None"
    and kept2: "\<forall>a r. a \<in> set [2, 4] \<and> modules ?w a = Some r
                  \<and> jerry_value_is_object (JS_object 2) \<and> realm r \<noteq> JS_object 2
              \<longrightarrow> (\<exists>r'. modules w2 a = Some r' \<and> payload r' = payload r
                        \<and> buffers w2 (path_p r) = buffers ?w (path_p r))"
    by auto
  from gone2 [rule_format, of 4 ?r4] m4 have g4: "modules w2 4 = None \<and> buffers w2 3 = None"
    by simp
  from kept2 [rule_format, of 2 ?r2] m2 obtain r' where
    "modules w2 2 = Some r'" "payload r' = payload ?r2" "buffers w2 1 = buffers ?w 1"
    by auto
  then have k2: "map_option payload (modules w2 2) = Some (1, 1, JS_object 1, JS_object 11)
          \<and> buffers w2 1 = Some ''/a.js''"
    by (simp add: payload_def example_world_def)
  from run2 g4 k2
  have B: "\<exists>w'. jerry_port_module_release (JS_object 2) example_world = Some (Inr w')
          \<and> modules w' 4 = None \<and> buffers w' 3 = None
          \<and> map_option payload (modules w' 2) = Some (1, 1, JS_object 1, JS_object 11)
          \<and> buffers w' 1 = Some ''/a.js''"
    by (intro exI [of _ w2]) simp
  from example_world_ok A B show ?thesis by (intro conjI)
qed



subsection \<open>Canonicalisation\<close>

text \<open>
  C6. \<^verbatim>\<open>jerry_port_normalize_path\<close>, called on a live specifier buffer and, when the base
  path length is not 0, a live base path, returns \<^verbatim>\<open>NULL\<close> exactly when one of its
  allocations fails (the copy of the specifier, the copy of the base path or, without a
  base path, both \<^verbatim>\<open>getcwd\<close> and the two bytes of the fallback, or the result buffer),
  whatever the bytes of the specifier; otherwise it returns a new buffer holding the path
  \<^verbatim>\<open>cwk_path_get_absolute\<close> computes. On every return the heap holds what it held before
  and, on success, the result: the intermediate copies are freed.
\<close>

theorem normalize_path_fails_only_on_allocation:
  assumes "buffers w in_path_p = Some in_path"
    and "base_path_length' = 0 \<or> (base_path_p = Some b \<and> buffers w b = Some base_path)"
    and "\<forall>a. a \<in> dom (buffers w) \<longrightarrow> a < brk w"
  shows "\<exists>res w'. jerry_port_normalize_path env (Some in_path_p) in_path_length
                     base_path_p base_path_length' w = Inr (res, w')
      \<and> (res = None \<longleftrightarrow>
            \<not> malloc_in_path_pz env \<or> (0 < base_path_length' \<and> \<not> malloc_base_path_pz env)
            \<or> (base_path_length' = 0 \<and> getcwd env = None \<and> \<not> malloc_out_cwd_p env)
            \<or> \<not> malloc_path_p env)
      \<and> (case res of
            None \<Rightarrow> buffers w' = buffers w
          | Some p \<Rightarrow> buffers w p = None \<and>
              buffers w' = (buffers w)(p \<mapsto>
                 cwk_path_get_absolute env
                   (c_str (if 0 < base_path_length' then take base_path_length' base_path
                           else cwd env))
                   (c_str (take in_path_length in_path))))"
  using assms by (rule normalize_path_result)

theorem normalize_path_fails_only_on_allocation_witness:
  "buffers example_world 1 = Some ''/a.js''
   \<and> (\<exists>res w'. jerry_port_normalize_path example_env (Some 1) 0 None 0 example_world
                   = Inr (res, w')
          \<and> res \<noteq> None
          \<and> (case res of None \<Rightarrow> False
              | Some p \<Rightarrow> buffers example_world p = None
                  \<and> buffers w' = (buffers example_world)(p \<mapsto> ''/'')))
   \<and> (\<exists>w'. jerry_port_normalize_path (example_env\<lparr>malloc_path_p := False\<rparr>) (Some 1) 5
                (Some 3) 1 example_world = Inr (None, w')
          \<and> buffers w' = buffers example_world)"
proof -
  have b1: "buffers example_world 1 = Some ''/a.js''"
    and b3: "buffers example_world 3 = Some ''/b.js''"
    and heap: "\<forall>a. a \<in> dom (buffers example_world) \<longrightarrow> a < brk example_world"
    by (simp_all add: example_world_def)
  have v1: "(0::nat) = 0 \<or> (None = Some 0 \<and> buffers example_world 0 = Some [])" by simp
  from normalize_path_fails_only_on_allocation [OF b1 v1 heap, of example_env 0]
  obtain res w' where
    "jerry_port_normalize_path example_env (Some 1) 0 None 0 example_world = Inr (res, w')"
    "res \<noteq> None"
    "case res of None \<Rightarrow> buffers w' = buffers example_world
     | Some p \<Rightarrow> buffers example_world p = None
          \<and> buffers w' = (buffers example_world)(p \<mapsto> ''/'')"
    by (auto simp: example_env_def cwd_def c_str_def)
  then have A: "\<exists>res w'. jerry_port_normalize_path example_env (Some 1) 0 None 0 example_world
                   = Inr (res, w')
          \<and> res \<noteq> None
          \<and> (case res of None \<Rightarrow> False
              | Some p \<Rightarrow> buffers example_world p = None
                  \<and> buffers w' = (buffers example_world)(p \<mapsto> ''/''))"
    by (intro exI [of _ res] exI [of _ w']) (auto split: option.splits)
  have v2: "(1::nat) = 0 \<or> (Some 3 = Some 3 \<and> buffers example_world 3 = Some ''/b.js'')"
    using b3 by simp
  from normalize_path_fails_only_on_allocation [OF b1 v2 heap,
      of "example_env\<lparr>malloc_path_p := False\<rparr>" 5]
  obtain res w' where
    "jerry_port_normalize_path (example_env\<lparr>malloc_path_p := False\<rparr>) (Some 1) 5
                (Some 3) 1 example_world = Inr (res, w')"
    "res = None" "case res of None \<Rightarrow> buffers w' = buffers example_world | Some p \<Rightarrow> False"
    by (auto split: option.splits)
  then have B: "\<exists>w'. jerry_port_normalize_path (example_env\<lparr>malloc_path_p := False\<rparr>) (Some 1) 5
                (Some 3) 1 example_world = Inr (None, w')
          \<and> buffers w' = buffers example_world"
    by (intro exI [of _ w']) simp
  from b1 A B show ?thesis by (intro conjI)
qed



subsection \<open>Failures of the resolver\<close>

lemma example_base: "resolve_base_path JS_undefined example_world = Inr (None, 0)"
  by (simp add: resolve_base_path_def jerry_get_object_native_pointer_def example_world_def)

lemma example_canonical_path:
  "canonical_path example_env (JS_string s) JS_undefined example_world = ''/'' @ c_str s"
  by (simp add: canonical_path_def base_directory_def example_base cwd_def example_env_def)

lemma example_records:
  "is_record_for example_world C P 2 \<longleftrightarrow> C = JS_object 1 \<and> strcmp ''/a.js'' P"
  "is_record_for example_world C P 4 \<longleftrightarrow> C = JS_object 2 \<and> strcmp ''/b.js'' P"
  by (auto simp: is_record_for_def example_world_def)

text \<open>
  C4. When a resolution misses the cache and the canonical path does not exist, names a
  directory or cannot be opened or read, \<^verbatim>\<open>jerry_port_module_resolve\<close> returns the syntax
  error \<^verbatim>\<open>"Module file not found"\<close> (a returned value, no fault), the list of modules is
  unchanged, the heap holds what it held before (the specifier and the path buffers are
  freed), and the reference to the realm is released: the only reference count that changes
  is that of the new error value.
\<close>

theorem resolve_missing_file:
  assumes "registry_ok w as"
    and "resolve_base_path referrer w = Inr (bp, bn)"
    and "malloc_in_path_p env" and "malloc_in_path_pz env"
    and "0 < bn \<longrightarrow> malloc_base_path_pz env"
    and "bn = 0 \<longrightarrow> getcwd env \<noteq> None \<or> malloc_out_cwd_p env"
    and "malloc_path_p env"
    and "P = canonical_path env specifier referrer w"
    and "find (is_record_for w (global_object env) P) as = None"
    and "stat env (c_str P) = None \<or> stat env (c_str P) = Some S_IFDIR
        \<or> \<not> fopen env (c_str P) \<or> \<not> malloc_buffer_p env
        \<or> length (fread env (c_str P) (ftell env (c_str P))) \<noteq> ftell env (c_str P)"
    and "E = JS_error JERRY_ERROR_SYNTAX ''Module file not found''"
  shows "\<exists>w'. jerry_port_module_resolve env specifier referrer user_p w = Some (Inr (E, w'))
      \<and> modules w' = modules w \<and> module_head_p w' = module_head_p w \<and> buffers w' = buffers w
      \<and> refs w' = (refs w)(E := refs w E + 1)
      \<and> native w' = native w \<and> trace w' = trace w @ [Ev_read_source (c_str P)]
      \<and> brk w \<le> brk w'"
  using assms by (rule resolve_unreadable)

theorem resolve_missing_file_witness:
  "registry_ok example_world [2, 4]
   \<and> resolve_base_path JS_undefined example_world = Inr (None, 0)
   \<and> canonical_path example_env (JS_string ''missing.js'') JS_undefined example_world
        = ''/missing.js''
   \<and> find (is_record_for example_world (global_object example_env) ''/missing.js'') [2, 4] = None
   \<and> stat example_env ''/missing.js'' = None
   \<and> (\<exists>w'. jerry_port_module_resolve example_env (JS_string ''missing.js'') JS_undefined None
               example_world
             = Some (Inr (JS_error JERRY_ERROR_SYNTAX ''Module file not found'', w'))
          \<and> modules w' = modules example_world
          \<and> module_head_p w' = module_head_p example_world
          \<and> buffers w' = buffers example_world
          \<and> refs w' (JS_object 1) = 1
          \<and> trace w' = [Ev_read_source ''/missing.js''])"
proof -
  let ?P = "''/missing.js''"
  let ?E = "JS_error JERRY_ERROR_SYNTAX ''Module file not found''"
  have P: "?P = canonical_path example_env (JS_string ''missing.js'') JS_undefined example_world"
    by (simp add: example_canonical_path)
  have miss: "find (is_record_for example_world (global_object example_env) ?P) [2, 4] = None"
    by (simp add: example_records strcmp_def)
  have cP: "c_str ?P = ?P" by simp
  have st: "stat example_env ?P = None" by (simp add: example_env_def)
  have allocs: "malloc_in_path_p example_env" "malloc_in_path_pz example_env"
    "0 < (0::nat) \<longrightarrow> malloc_base_path_pz example_env"
    "(0::nat) = 0 \<longrightarrow> getcwd example_env \<noteq> None \<or> malloc_out_cwd_p example_env"
    "malloc_path_p example_env"
    by (simp_all add: example_env_def)
  have unreadable: "stat example_env (c_str ?P) = None \<or> stat example_env (c_str ?P) = Some S_IFDIR
        \<or> \<not> fopen example_env (c_str ?P) \<or> \<not> malloc_buffer_p example_env
        \<or> length (fread example_env (c_str ?P) (ftell example_env (c_str ?P)))
             \<noteq> ftell example_env (c_str ?P)"
    unfolding cP using st by simp
  from resolve_missing_file [OF example_world_ok example_base allocs P miss unreadable refl,
      of None]
  obtain w' where
    "jerry_port_module_resolve example_env (JS_string ''missing.js'') JS_undefined None
               example_world = Some (Inr (?E, w'))"
    "modules w' = modules example_world" "module_head_p w' = module_head_p example_world"
    "buffers w' = buffers example_world"
    "refs w' = (refs example_world)(?E := refs example_world ?E + 1)"
    "trace w' = trace example_world @ [Ev_read_source (c_str ?P)]"
    by blast
  then have "\<exists>w'. jerry_port_module_resolve example_env (JS_string ''missing.js'') JS_undefined None
               example_world = Some (Inr (?E, w'))
          \<and> modules w' = modules example_world
          \<and> module_head_p w' = module_head_p example_world
          \<and> buffers w' = buffers example_world
          \<and> refs w' (JS_object 1) = 1
          \<and> trace w' = [Ev_read_source ?P]"
    by (intro exI [of _ w']) (simp add: example_world_def)
  with example_world_ok example_base P [symmetric] miss st show ?thesis by (intro conjI)
qed

text \<open>
  C5. When a resolution misses the cache, reads the source and the parser returns an error
  value, \<^verbatim>\<open>jerry_port_module_resolve\<close> returns that very value, no descriptor is inserted
  (the list of modules is unchanged), the heap holds what it held before (the source, the
  specifier and the path buffers are freed), and the reference to the realm is released:
  the only reference count that changes is that of the returned error, which the caller
  owns.
\<close>

theorem resolve_parse_failure:
  assumes "registry_ok w as"
    and "resolve_base_path referrer w = Inr (bp, bn)"
    and "malloc_in_path_p env" and "malloc_in_path_pz env"
    and "0 < bn \<longrightarrow> malloc_base_path_pz env"
    and "bn = 0 \<longrightarrow> getcwd env \<noteq> None \<or> malloc_out_cwd_p env"
    and "malloc_path_p env"
    and "P = canonical_path env specifier referrer w"
    and "find (is_record_for w (global_object env) P) as = None"
    and "\<not> (stat env (c_str P) = None \<or> stat env (c_str P) = Some S_IFDIR
        \<or> \<not> fopen env (c_str P) \<or> \<not> malloc_buffer_p env
        \<or> length (fread env (c_str P) (ftell env (c_str P))) \<noteq> ftell env (c_str P))"
    and "source = fread env (c_str P) (ftell env (c_str P))"
    and "v = parse env source (utf8_string specifier)"
    and "jerry_value_is_error v"
  shows "\<exists>w'. jerry_port_module_resolve env specifier referrer user_p w = Some (Inr (v, w'))
        \<and> modules w' = modules w \<and> module_head_p w' = module_head_p w \<and> buffers w' = buffers w
        \<and> refs w' = (refs w)(v := refs w v + 1)
        \<and> native w' = native w
        \<and> trace w' = trace w @ [Ev_read_source (c_str P), Ev_parse source (utf8_string specifier)]
        \<and> brk w \<le> brk w'"
  using assms(13) by (rule resolve_parsed(1) [OF assms(1-12) refl refl])

theorem resolve_parse_failure_witness:
  "registry_ok example_world [2, 4]
   \<and> resolve_base_path JS_undefined example_world = Inr (None, 0)
   \<and> canonical_path example_env (JS_string ''bad.js'') JS_undefined example_world = ''/bad.js''
   \<and> find (is_record_for example_world (global_object example_env) ''/bad.js'') [2, 4] = None
   \<and> stat example_env ''/bad.js'' = Some S_IFREG
   \<and> fread example_env ''/bad.js'' (ftell example_env ''/bad.js'') = ''x=1''
   \<and> parse example_env ''x=1'' ''bad.js'' = JS_error JERRY_ERROR_SYNTAX ''Unexpected token''
   \<and> (\<exists>w'. jerry_port_module_resolve example_env (JS_string ''bad.js'') JS_undefined None
               example_world
             = Some (Inr (JS_error JERRY_ERROR_SYNTAX ''Unexpected token'', w'))
          \<and> modules w' = modules example_world
          \<and> module_head_p w' = module_head_p example_world
          \<and> buffers w' = buffers example_world
          \<and> refs w' (JS_object 1) = 1
          \<and> trace w' = [Ev_read_source ''/bad.js'', Ev_parse ''x=1'' ''bad.js''])"
proof -
  let ?P = "''/bad.js''"
  let ?E = "JS_error JERRY_ERROR_SYNTAX ''Unexpected token''"
  have P: "?P = canonical_path example_env (JS_string ''bad.js'') JS_undefined example_world"
    by (simp add: example_canonical_path)
  have miss: "find (is_record_for example_world (global_object example_env) ?P) [2, 4] = None"
    by (simp add: example_records strcmp_def)
  have cP: "c_str ?P = ?P" by simp
  have st: "stat example_env ?P = Some S_IFREG"
    and rd: "fread example_env ?P (ftell example_env ?P) = ''x=1''"
    and pr: "parse example_env ''x=1'' ''bad.js'' = ?E"
    by (simp_all add: example_env_def)
  have allocs: "malloc_in_path_p example_env" "malloc_in_path_pz example_env"
    "0 < (0::nat) \<longrightarrow> malloc_base_path_pz example_env"
    "(0::nat) = 0 \<longrightarrow> getcwd example_env \<noteq> None \<or> malloc_out_cwd_p example_env"
    "malloc_path_p example_env"
    by (simp_all add: example_env_def)
  have readable: "\<not> (stat example_env (c_str ?P) = None \<or> stat example_env (c_str ?P) = Some S_IFDIR
        \<or> \<not> fopen example_env (c_str ?P) \<or> \<not> malloc_buffer_p example_env
        \<or> length (fread example_env (c_str ?P) (ftell example_env (c_str ?P)))
             \<noteq> ftell example_env (c_str ?P))"
    unfolding cP by (simp add: example_env_def)
  have src: "''x=1'' = fread example_env (c_str ?P) (ftell example_env (c_str ?P))"
    unfolding cP by (simp add: rd)
  have v: "?E = parse example_env ''x=1'' (utf8_string (JS_string ''bad.js''))"
    by (simp add: pr)
  have err: "jerry_value_is_error ?E" by simp
  from resolve_parse_failure [OF example_world_ok example_base allocs P miss readable src v err,
      of None]
  obtain w' where
    "jerry_port_module_resolve example_env (JS_string ''bad.js'') JS_undefined None
               example_world = Some (Inr (?E, w'))"
    "modules w' = modules example_world" "module_head_p w' = module_head_p example_world"
    "buffers w' = buffers example_world"
    "refs w' = (refs example_world)(?E := refs example_world ?E + 1)"
    "trace w' = trace example_world @ [Ev_read_source (c_str ?P),
                  Ev_parse ''x=1'' (utf8_string (JS_string ''bad.js''))]"
    by blast
  then have "\<exists>w'. jerry_port_module_resolve example_env (JS_string ''bad.js'') JS_undefined None
               example_world = Some (Inr (?E, w'))
          \<and> modules w' = modules example_world
          \<and> module_head_p w' = module_head_p example_world
          \<and> buffers w' = buffers example_world
          \<and> refs w' (JS_object 1) = 1
          \<and> trace w' = [Ev_read_source ?P, Ev_parse ''x=1'' ''bad.js'']"
    by (intro exI [of _ w']) (simp add: example_world_def)
  with example_world_ok example_base P [symmetric] miss st rd pr show ?thesis by (intro conjI)
qed



text \<open>
  C9. Two allocations of \<^verbatim>\<open>jerry_port_module_resolve\<close> are used unchecked: when the
  \<^verbatim>\<open>malloc\<close> of the specifier buffer fails, and when the \<^verbatim>\<open>malloc\<close> of the new descriptor
  fails after a successful parse, the call dereferences \<^verbatim>\<open>NULL\<close>; an allocation failure
  inside \<^verbatim>\<open>jerry_port_normalize_path\<close> is the one that gives the error
  \<^verbatim>\<open>"Out of memory"\<close>.
\<close>

theorem resolve_unchecked_allocations:
  assumes "registry_ok w as"
    and "resolve_base_path referrer w = Inr (bp, bn)"
    and "P = canonical_path env specifier referrer w"
    and "v = parse env (fread env (c_str P) (ftell env (c_str P))) (utf8_string specifier)"
  shows "(\<not> malloc_in_path_p env \<longrightarrow>
            jerry_port_module_resolve env specifier referrer user_p w
              = Some (Inl Null_dereference))
    \<and> (malloc_in_path_p env \<and> malloc_in_path_pz env \<and> (0 < bn \<longrightarrow> malloc_base_path_pz env)
         \<and> (bn = 0 \<longrightarrow> getcwd env \<noteq> None \<or> malloc_out_cwd_p env) \<and> malloc_path_p env
         \<and> find (is_record_for w (global_object env) P) as = None
         \<and> \<not> (stat env (c_str P) = None \<or> stat env (c_str P) = Some S_IFDIR
               \<or> \<not> fopen env (c_str P) \<or> \<not> malloc_buffer_p env
               \<or> length (fread env (c_str P) (ftell env (c_str P))) \<noteq> ftell env (c_str P))
         \<and> \<not> jerry_value_is_error v \<and> \<not> malloc_module_p env \<longrightarrow>
            jerry_port_module_resolve env specifier referrer user_p w
              = Some (Inl Null_dereference))
    \<and> (malloc_in_path_p env
         \<and> (\<not> malloc_in_path_pz env \<or> (0 < bn \<and> \<not> malloc_base_path_pz env)
              \<or> (bn = 0 \<and> getcwd env = None \<and> \<not> malloc_out_cwd_p env)
              \<or> \<not> malloc_path_p env) \<longrightarrow>
            (\<exists>w'. jerry_port_module_resolve env specifier referrer user_p w
                     = Some (Inr (JS_error JERRY_ERROR_COMMON ''Out of memory'', w'))))"
proof (intro conjI impI)
  assume "\<not> malloc_in_path_p env"
  with assms(2) show "jerry_port_module_resolve env specifier referrer user_p w
              = Some (Inl Null_dereference)"
    by (rule resolve_in_path_null)
next
  assume h: "malloc_in_path_p env \<and> malloc_in_path_pz env \<and> (0 < bn \<longrightarrow> malloc_base_path_pz env)
         \<and> (bn = 0 \<longrightarrow> getcwd env \<noteq> None \<or> malloc_out_cwd_p env) \<and> malloc_path_p env
         \<and> find (is_record_for w (global_object env) P) as = None
         \<and> \<not> (stat env (c_str P) = None \<or> stat env (c_str P) = Some S_IFDIR
               \<or> \<not> fopen env (c_str P) \<or> \<not> malloc_buffer_p env
               \<or> length (fread env (c_str P) (ftell env (c_str P))) \<noteq> ftell env (c_str P))
         \<and> \<not> jerry_value_is_error v \<and> \<not> malloc_module_p env"
  then have allocs: "malloc_in_path_p env" "malloc_in_path_pz env" "0 < bn \<longrightarrow> malloc_base_path_pz env"
      "bn = 0 \<longrightarrow> getcwd env \<noteq> None \<or> malloc_out_cwd_p env" "malloc_path_p env"
    and miss: "find (is_record_for w (global_object env) P) as = None"
    and readable: "\<not> (stat env (c_str P) = None \<or> stat env (c_str P) = Some S_IFDIR
               \<or> \<not> fopen env (c_str P) \<or> \<not> malloc_buffer_p env
               \<or> length (fread env (c_str P) (ftell env (c_str P))) \<noteq> ftell env (c_str P))"
    and good: "\<not> jerry_value_is_error v" "\<not> malloc_module_p env"
    by blast+
  from good show "jerry_port_module_resolve env specifier referrer user_p w
              = Some (Inl Null_dereference)"
    by (rule resolve_parsed(2) [OF assms(1,2) allocs assms(3) miss readable refl assms(4) refl refl])
next
  assume h: "malloc_in_path_p env
         \<and> (\<not> malloc_in_path_pz env \<or> (0 < bn \<and> \<not> malloc_base_path_pz env)
              \<or> (bn = 0 \<and> getcwd env = None \<and> \<not> malloc_out_cwd_p env)
              \<or> \<not> malloc_path_p env)"
  then have a1: "malloc_in_path_p env"
    and fail: "\<not> malloc_in_path_pz env \<or> (0 < bn \<and> \<not> malloc_base_path_pz env)
              \<or> (bn = 0 \<and> getcwd env = None \<and> \<not> malloc_out_cwd_p env)
              \<or> \<not> malloc_path_p env"
    by blast+
  from resolve_out_of_memory [OF assms(1,2) a1 fail refl, of specifier user_p]
  show "\<exists>w'. jerry_port_module_resolve env specifier referrer user_p w
                     = Some (Inr (JS_error JERRY_ERROR_COMMON ''Out of memory'', w'))"
    by blast
qed

theorem resolve_unchecked_allocations_witness:
  "registry_ok example_world [2, 4]
   \<and> resolve_base_path JS_undefined example_world = Inr (None, 0)
   \<and> jerry_port_module_resolve (example_env\<lparr>malloc_in_path_p := False\<rparr>)
        (JS_string ''b.js'') JS_undefined None example_world = Some (Inl Null_dereference)
   \<and> parse example_env ''x=1'' ''b.js'' = JS_object 20
   \<and> jerry_port_module_resolve (example_env\<lparr>malloc_module_p := False\<rparr>)
        (JS_string ''b.js'') JS_undefined None example_world = Some (Inl Null_dereference)
   \<and> (\<exists>w'. jerry_port_module_resolve (example_env\<lparr>malloc_path_p := False\<rparr>)
        (JS_string ''b.js'') JS_undefined None example_world
          = Some (Inr (JS_error JERRY_ERROR_COMMON ''Out of memory'', w')))"
proof -
  let ?P = "''/b.js''"
  let ?s = "JS_string ''b.js''"
  have pr: "parse example_env ''x=1'' ''b.js'' = JS_object 20" by (simp add: example_env_def)
  have cP: "c_str ?P = ?P" by simp
  have P: "?P = canonical_path (example_env\<lparr>malloc_in_path_p := False\<rparr>) ?s JS_undefined example_world"
    "?P = canonical_path (example_env\<lparr>malloc_module_p := False\<rparr>) ?s JS_undefined example_world"
    "?P = canonical_path (example_env\<lparr>malloc_path_p := False\<rparr>) ?s JS_undefined example_world"
    by (simp_all add: canonical_path_def base_directory_def example_base cwd_def example_env_def)
  have v: "JS_object 20 = parse (example_env\<lparr>malloc_in_path_p := False\<rparr>)
             (fread (example_env\<lparr>malloc_in_path_p := False\<rparr>) (c_str ?P)
                (ftell (example_env\<lparr>malloc_in_path_p := False\<rparr>) (c_str ?P)))
             (utf8_string ?s)"
    "JS_object 20 = parse (example_env\<lparr>malloc_module_p := False\<rparr>)
             (fread (example_env\<lparr>malloc_module_p := False\<rparr>) (c_str ?P)
                (ftell (example_env\<lparr>malloc_module_p := False\<rparr>) (c_str ?P)))
             (utf8_string ?s)"
    "JS_object 20 = parse (example_env\<lparr>malloc_path_p := False\<rparr>)
             (fread (example_env\<lparr>malloc_path_p := False\<rparr>) (c_str ?P)
                (ftell (example_env\<lparr>malloc_path_p := False\<rparr>) (c_str ?P)))
             (utf8_string ?s)"
    unfolding cP by (simp_all add: example_env_def)
  from resolve_unchecked_allocations [OF example_world_ok example_base P(1) v(1), of None]
  have A: "jerry_port_module_resolve (example_env\<lparr>malloc_in_path_p := False\<rparr>)
        ?s JS_undefined None example_world = Some (Inl Null_dereference)"
    by simp
  have miss: "find (is_record_for example_world (JS_object 1) ?P) [2, 4] = None"
    by (simp add: example_records strcmp_def)
  from resolve_unchecked_allocations [OF example_world_ok example_base P(2) v(2), of None]
  have B: "jerry_port_module_resolve (example_env\<lparr>malloc_module_p := False\<rparr>)
        ?s JS_undefined None example_world = Some (Inl Null_dereference)"
    unfolding cP using miss by (simp add: example_env_def)
  from resolve_unchecked_allocations [OF example_world_ok example_base P(3) v(3), of None]
  have C: "\<exists>w'. jerry_port_module_resolve (example_env\<lparr>malloc_path_p := False\<rparr>)
        ?s JS_undefined None example_world
          = Some (Inr (JS_error JERRY_ERROR_COMMON ''Out of memory'', w'))"
    by (simp add: example_env_def)
  from example_world_ok example_base A pr B C show ?thesis by (intro conjI)
qed



subsection \<open>The realm of a resolution\<close>

text \<open>
  C8. \<^verbatim>\<open>jerry_port_module_resolve\<close> does not look at \<^verbatim>\<open>user_p\<close>: two calls that differ
  in it only are the same. The realm of the cache is the current global object: a hit is a
  descriptor whose realm is \<open>global_object env\<close> (and whose path compares equal), and a
  descriptor inserted after a miss carries \<open>global_object env\<close> as its realm, whatever the
  specifier, the referrer and \<^verbatim>\<open>user_p\<close> are.
\<close>

theorem resolve_realm_is_global_object:
  assumes "registry_ok w as"
    and "resolve_base_path referrer w = Inr (bp, bn)"
    and "malloc_in_path_p env" and "malloc_in_path_pz env"
    and "0 < bn \<longrightarrow> malloc_base_path_pz env"
    and "bn = 0 \<longrightarrow> getcwd env \<noteq> None \<or> malloc_out_cwd_p env"
    and "malloc_path_p env"
    and "P = canonical_path env specifier referrer w"
    and "v = parse env (fread env (c_str P) (ftell env (c_str P))) (utf8_string specifier)"
  shows "jerry_port_module_resolve env specifier referrer user_p w
           = jerry_port_module_resolve env specifier referrer user_p' w
    \<and> (\<forall>m r. find (is_record_for w (global_object env) P) as = Some m \<and> modules w m = Some r
          \<longrightarrow> realm r = global_object env
              \<and> (\<exists>w'. jerry_port_module_resolve env specifier referrer user_p w
                         = Some (Inr (module r, w'))))
    \<and> (find (is_record_for w (global_object env) P) as = None
         \<and> \<not> (stat env (c_str P) = None \<or> stat env (c_str P) = Some S_IFDIR
               \<or> \<not> fopen env (c_str P) \<or> \<not> malloc_buffer_p env
               \<or> length (fread env (c_str P) (ftell env (c_str P))) \<noteq> ftell env (c_str P))
         \<and> \<not> jerry_value_is_error v \<and> malloc_module_p env
          \<longrightarrow> (\<exists>w' new r. jerry_port_module_resolve env specifier referrer user_p w
                             = Some (Inr (v, w'))
                  \<and> module_head_p w' = Some new \<and> modules w' new = Some r
                  \<and> realm r = global_object env \<and> module r = v))"
proof (intro conjI allI impI)
  show "jerry_port_module_resolve env specifier referrer user_p w
           = jerry_port_module_resolve env specifier referrer user_p' w"
    by (simp add: jerry_port_module_resolve_def)
next
  fix m r
  assume h: "find (is_record_for w (global_object env) P) as = Some m \<and> modules w m = Some r"
  then have "is_record_for w (global_object env) P m" by (auto simp: find_Some_iff)
  with h show "realm r = global_object env" by (simp add: is_record_for_def)
next
  fix m r
  assume h: "find (is_record_for w (global_object env) P) as = Some m \<and> modules w m = Some r"
  then have f: "find (is_record_for w (global_object env)
                        (canonical_path env specifier referrer w)) as = Some m"
    and r: "modules w m = Some r"
    by (simp_all add: assms(8))
  from resolve_hit [OF assms(1-7) f r, of user_p]
  show "\<exists>w'. jerry_port_module_resolve env specifier referrer user_p w
                         = Some (Inr (module r, w'))"
    by blast
next
  assume h: "find (is_record_for w (global_object env) P) as = None
         \<and> \<not> (stat env (c_str P) = None \<or> stat env (c_str P) = Some S_IFDIR
               \<or> \<not> fopen env (c_str P) \<or> \<not> malloc_buffer_p env
               \<or> length (fread env (c_str P) (ftell env (c_str P))) \<noteq> ftell env (c_str P))
         \<and> \<not> jerry_value_is_error v \<and> malloc_module_p env"
  then have miss: "find (is_record_for w (global_object env) P) as = None"
    and readable: "\<not> (stat env (c_str P) = None \<or> stat env (c_str P) = Some S_IFDIR
               \<or> \<not> fopen env (c_str P) \<or> \<not> malloc_buffer_p env
               \<or> length (fread env (c_str P) (ftell env (c_str P))) \<noteq> ftell env (c_str P))"
    and good: "\<not> jerry_value_is_error v" "malloc_module_p env"
    by blast+
  from resolve_parsed(3) [OF assms(1-8) miss readable refl assms(9) refl refl good, of user_p]
  obtain w' pp new where
    run: "jerry_port_module_resolve env specifier referrer user_p w = Some (Inr (v, w'))"
    and hd: "module_head_p w' = Some new"
    and md: "modules w' = (modules w)(new \<mapsto>
             \<lparr>next_p = module_head_p w, path_p = pp,
              base_path_length = jerry_port_get_directory_end (defined_WIN32 env) P,
              realm = global_object env, module = v\<rparr>)"
    by blast
  let ?r = "\<lparr>next_p = module_head_p w, path_p = pp,
              base_path_length = jerry_port_get_directory_end (defined_WIN32 env) P,
              realm = global_object env, module = v\<rparr>"
  from md have "modules w' new = Some ?r" by simp
  with run hd show "\<exists>w' new r. jerry_port_module_resolve env specifier referrer user_p w
                             = Some (Inr (v, w'))
                  \<and> module_head_p w' = Some new \<and> modules w' new = Some r
                  \<and> realm r = global_object env \<and> module r = v"
    by (intro exI [of _ w'] exI [of _ new] exI [of _ ?r]) simp
qed

theorem resolve_realm_is_global_object_witness:
  "registry_ok example_world [2, 4]
   \<and> resolve_base_path JS_undefined example_world = Inr (None, 0)
   \<and> jerry_port_module_resolve example_env (JS_string ''b.js'') JS_undefined None example_world
       = jerry_port_module_resolve example_env (JS_string ''b.js'') JS_undefined (Some 7)
           example_world
   \<and> find (is_record_for example_world (JS_object 2) ''/b.js'') [2, 4] = Some 4
   \<and> (\<exists>w'. jerry_port_module_resolve (example_env\<lparr>global_object := JS_object 2\<rparr>)
               (JS_string ''b.js'') JS_undefined None example_world
             = Some (Inr (JS_object 12, w')))
   \<and> find (is_record_for example_world (JS_object 1) ''/b.js'') [2, 4] = None
   \<and> (\<exists>w' new r. jerry_port_module_resolve example_env
               (JS_string ''b.js'') JS_undefined None example_world
             = Some (Inr (JS_object 20, w'))
          \<and> module_head_p w' = Some new \<and> modules w' new = Some r
          \<and> realm r = JS_object 1 \<and> module r = JS_object 20)"
proof -
  let ?P = "''/b.js''"
  let ?s = "JS_string ''b.js''"
  let ?e2 = "example_env\<lparr>global_object := JS_object 2\<rparr>"
  let ?r4 = "\<lparr>next_p = None, path_p = 3, base_path_length = 1,
                        realm = JS_object 2, module = JS_object 12\<rparr>"
  have cP: "c_str ?P = ?P" by simp
  have P: "?P = canonical_path example_env ?s JS_undefined example_world"
    "?P = canonical_path ?e2 ?s JS_undefined example_world"
    by (simp_all add: canonical_path_def base_directory_def example_base cwd_def example_env_def)
  have v: "JS_object 20 = parse example_env
             (fread example_env (c_str ?P) (ftell example_env (c_str ?P))) (utf8_string ?s)"
    "JS_object 20 = parse ?e2 (fread ?e2 (c_str ?P) (ftell ?e2 (c_str ?P))) (utf8_string ?s)"
    unfolding cP by (simp_all add: example_env_def)
  have allocs: "malloc_in_path_p example_env" "malloc_in_path_pz example_env"
    "0 < (0::nat) \<longrightarrow> malloc_base_path_pz example_env"
    "(0::nat) = 0 \<longrightarrow> getcwd example_env \<noteq> None \<or> malloc_out_cwd_p example_env"
    "malloc_path_p example_env"
    by (simp_all add: example_env_def)
  have allocs2: "malloc_in_path_p ?e2" "malloc_in_path_pz ?e2"
    "0 < (0::nat) \<longrightarrow> malloc_base_path_pz ?e2"
    "(0::nat) = 0 \<longrightarrow> getcwd ?e2 \<noteq> None \<or> malloc_out_cwd_p ?e2"
    "malloc_path_p ?e2"
    by (simp_all add: example_env_def)
  have hit2: "find (is_record_for example_world (JS_object 2) ?P) [2, 4] = Some 4"
    and miss1: "find (is_record_for example_world (JS_object 1) ?P) [2, 4] = None"
    by (simp_all add: example_records strcmp_def)
  have m4: "modules example_world 4 = Some ?r4" by (simp add: example_world_def)
  note t1 = resolve_realm_is_global_object [OF example_world_ok example_base allocs P(1) v(1),
      of None "Some 7"]
  note t2 = resolve_realm_is_global_object [OF example_world_ok example_base allocs2 P(2) v(2),
      of None None]
  from t1 have A: "jerry_port_module_resolve example_env ?s JS_undefined None example_world
       = jerry_port_module_resolve example_env ?s JS_undefined (Some 7) example_world"
    by (rule conjunct1)
  from t2 [THEN conjunct2, THEN conjunct1, rule_format, of 4 ?r4] hit2 m4
  have B: "\<exists>w'. jerry_port_module_resolve ?e2 ?s JS_undefined None example_world
             = Some (Inr (JS_object 12, w'))"
    by simp
  have g: "global_object example_env = JS_object 1" by (simp add: example_env_def)
  have rd: "\<not> (stat example_env ?P = None \<or> stat example_env ?P = Some S_IFDIR
               \<or> \<not> fopen example_env ?P \<or> \<not> malloc_buffer_p example_env
               \<or> length (fread example_env ?P (ftell example_env ?P)) \<noteq> ftell example_env ?P)"
    "malloc_module_p example_env"
    by (simp_all add: example_env_def)
  from t1 [THEN conjunct2, THEN conjunct2] miss1 rd
  have C: "\<exists>w' new r. jerry_port_module_resolve example_env ?s JS_undefined None example_world
             = Some (Inr (JS_object 20, w'))
          \<and> module_head_p w' = Some new \<and> modules w' new = Some r
          \<and> realm r = JS_object 1 \<and> module r = JS_object 20"
    unfolding cP g by simp
  from example_world_ok example_base A hit2 B miss1 C show ?thesis by (intro conjI)
qed



subsection \<open>The invariant of the registry\<close>

lemma registry_frame:
  assumes ok: "registry_ok w as"
    and mods: "modules w' = modules w" and hd: "module_head_p w' = module_head_p w"
    and low: "\<forall>a. a < brk w \<longrightarrow> buffers w' a = buffers w a"
    and heap': "\<forall>a. a \<in> dom (buffers w') \<longrightarrow> a < brk w'"
    and brk: "brk w \<le> brk w'"
  shows "registry_ok w' as"
    and "\<forall>a C P. a \<in> set as \<longrightarrow> is_record_for w' C P a = is_record_for w C P a"
proof -
  have same: "buffers w' (path_p r) = buffers w (path_p r)"
    if "a \<in> set as" "modules w a = Some r" for a r
    using owned_path_below_brk [OF ok that] low by simp
  have own: "list_all (owns_path w') as"
    unfolding list_all_iff
  proof
    fix a assume a: "a \<in> set as"
    with registry_ok_parts(2) [OF ok] have "owns_path w a" by (simp add: list_all_iff)
    then obtain r where r: "modules w a = Some r" "buffers w (path_p r) \<noteq> None"
      by (auto simp: owns_path_def split: option.splits)
    with same [OF a r(1)] show "owns_path w' a" by (simp add: owns_path_def mods)
  qed
  have reg: "registry w' as"
    using registry_ok_parts(1) [OF ok] by (simp add: registry_def mods hd)
  have dist: "distinct (map (\<lambda>a. map_option path_p (modules w' a)) as)"
    using registry_ok_parts(3) [OF ok] by (simp add: mods)
  have dm: "dom (modules w') \<subseteq> set as"
    using registry_ok_parts(4) [OF ok] by (simp add: mods)
  have bound: "\<forall>a. a \<in> dom (modules w') \<or> a \<in> dom (buffers w') \<longrightarrow> a < brk w'"
  proof (intro allI impI)
    fix a assume "a \<in> dom (modules w') \<or> a \<in> dom (buffers w')"
    then show "a < brk w'"
    proof
      assume "a \<in> dom (modules w')"
      then have "a \<in> dom (modules w)" by (simp add: mods)
      with registry_ok_parts(6) [OF ok] have "a < brk w" by blast
      with brk show ?thesis by simp
    next
      assume "a \<in> dom (buffers w')"
      with heap' show ?thesis by blast
    qed
  qed
  from reg own dist dm bound show "registry_ok w' as"
    unfolding registry_ok_def by (intro conjI)
  show "\<forall>a C P. a \<in> set as \<longrightarrow> is_record_for w' C P a = is_record_for w C P a"
  proof (intro allI impI)
    fix a C P assume a: "a \<in> set as"
    show "is_record_for w' C P a = is_record_for w C P a"
    proof (cases "modules w a")
      case None
      then show ?thesis by (simp add: is_record_for_def mods)
    next
      case (Some r)
      with same [OF a Some] show ?thesis by (simp add: is_record_for_def mods)
    qed
  qed
qed

lemma registry_unique_frame:
  assumes un: "registry_unique w as"
    and rec: "\<forall>a C P. a \<in> set as \<longrightarrow> is_record_for w' C P a = is_record_for w C P a"
  shows "registry_unique w' as"
  unfolding registry_unique_def
proof (intro allI)
  fix C P
  have "filter (is_record_for w' C P) as = filter (is_record_for w C P) as"
    using rec by (intro filter_cong [OF refl]) blast
  with un show "length (filter (is_record_for w' C P) as) \<le> 1"
    by (simp add: registry_unique_def)
qed

lemma registry_same:
  assumes ok: "registry_ok w as" and un: "registry_unique w as"
    and mods: "modules w' = modules w" and hd: "module_head_p w' = module_head_p w"
    and bufs: "buffers w' = buffers w" and brk: "brk w \<le> brk w'"
  shows "registry_ok w' as \<and> registry_unique w' as"
proof -
  have low: "\<forall>a. a < brk w \<longrightarrow> buffers w' a = buffers w a" by (simp add: bufs)
  have heap': "\<forall>a. a \<in> dom (buffers w') \<longrightarrow> a < brk w'"
  proof (intro allI impI)
    fix a assume "a \<in> dom (buffers w')"
    then have "a \<in> dom (buffers w)" by (simp add: bufs)
    with registry_ok_parts(5) [OF ok] have "a < brk w" by blast
    with brk show "a < brk w'" by simp
  qed
  note f = registry_frame [OF ok mods hd low heap' brk]
  from f(1) registry_unique_frame [OF un f(2)] show ?thesis by simp
qed

lemma strcmp_trans: "strcmp a b \<Longrightarrow> strcmp c b \<Longrightarrow> strcmp a c"
  by (simp add: strcmp_def)

lemma registry_insert:
  assumes ok: "registry_ok w as" and un: "registry_unique w as"
    and miss: "find (is_record_for w C P) as = None"
    and hd: "module_head_p w' = Some new"
    and mods: "modules w' = (modules w)(new \<mapsto> r)"
    and r: "next_p r = module_head_p w" "path_p r = pp" "realm r = C"
    and bufs: "buffers w' = (buffers w)(pp \<mapsto> P)"
    and ord: "brk w < pp" "pp < new" "new < brk w'"
  shows "registry_ok w' (new # as) \<and> registry_unique w' (new # as)"
proof -
  have below: "a < brk w" if "a \<in> set as" for a
  proof -
    from registry_ok_parts(1) [OF ok] that have "modules w a \<noteq> None" by (rule module_list_live)
    then have "a \<in> dom (modules w)" by auto
    with registry_ok_parts(6) [OF ok] show ?thesis by blast
  qed
  have new_as: "new \<notin> set as" using below ord by fastforce
  have old: "modules w' a = modules w a" if "a \<in> set as" for a
    using that new_as by (auto simp: mods)
  have pbelow: "path_p ra < brk w" if "a \<in> set as" "modules w a = Some ra" for a ra
    using owned_path_below_brk [OF ok that] .
  have same: "buffers w' (path_p ra) = buffers w (path_p ra)"
    if "a \<in> set as" "modules w a = Some ra" for a ra
    using pbelow [OF that] ord(1) by (simp add: bufs)
  have reg: "registry w' (new # as)"
    using registry_ok_parts(1) [OF ok] new_as
    by (simp add: registry_def hd mods r(1) module_list_update_other)
  have own: "list_all (owns_path w') (new # as)"
    unfolding list_all_iff
  proof
    fix a assume "a \<in> set (new # as)"
    then consider "a = new" | "a \<in> set as" by auto
    then show "owns_path w' a"
    proof cases
      case 1
      then show ?thesis by (simp add: owns_path_def mods bufs r(2))
    next
      case 2
      with registry_ok_parts(2) [OF ok] have "owns_path w a" by (simp add: list_all_iff)
      then obtain ra where ra: "modules w a = Some ra" "buffers w (path_p ra) \<noteq> None"
        by (auto simp: owns_path_def split: option.splits)
      with same [OF 2 ra(1)] old [OF 2] show ?thesis by (simp add: owns_path_def)
    qed
  qed
  have meq: "map (\<lambda>a. map_option path_p (modules w' a)) as
              = map (\<lambda>a. map_option path_p (modules w a)) as"
    by (rule map_cong [OF refl]) (simp add: old)
  have "Some pp \<notin> set (map (\<lambda>a. map_option path_p (modules w a)) as)"
  proof
    assume "Some pp \<in> set (map (\<lambda>a. map_option path_p (modules w a)) as)"
    then obtain a where a: "a \<in> set as" "Some pp = map_option path_p (modules w a)"
      by (auto simp: image_iff)
    then obtain ra where "modules w a = Some ra" "path_p ra = pp"
      by (cases "modules w a") auto
    with a(1) have "a \<in> set as" "modules w a = Some ra" "path_p ra = pp" by simp_all
    with pbelow [of a ra] ord(1) show False by simp
  qed
  with registry_ok_parts(3) [OF ok]
  have dist: "distinct (map (\<lambda>a. map_option path_p (modules w' a)) (new # as))"
    by (simp add: meq) (simp add: mods r(2))
  have dm: "dom (modules w') \<subseteq> set (new # as)"
    using registry_ok_parts(4) [OF ok] by (auto simp: mods)
  have bound: "\<forall>a. a \<in> dom (modules w') \<or> a \<in> dom (buffers w') \<longrightarrow> a < brk w'"
  proof (intro allI impI)
    fix a assume "a \<in> dom (modules w') \<or> a \<in> dom (buffers w')"
    then consider "a = new" | "a \<in> dom (modules w)" | "a = pp" | "a \<in> dom (buffers w)"
      by (auto simp: mods bufs split: if_splits)
    then show "a < brk w'"
    proof cases
      case 1 with ord show ?thesis by simp
    next
      case 2 with registry_ok_parts(6) [OF ok] have "a < brk w" by blast
      with ord show ?thesis by simp
    next
      case 3 with ord show ?thesis by simp
    next
      case 4 with registry_ok_parts(5) [OF ok] have "a < brk w" by blast
      with ord show ?thesis by simp
    qed
  qed
  from reg own dist dm bound have ok': "registry_ok w' (new # as)"
    unfolding registry_ok_def by (intro conjI)
  have rec: "is_record_for w' C' P' a = is_record_for w C' P' a" if "a \<in> set as" for a C' P'
  proof (cases "modules w a")
    case None
    with old [OF that] show ?thesis by (simp add: is_record_for_def)
  next
    case (Some ra)
    with same [OF that Some] old [OF that] show ?thesis by (simp add: is_record_for_def)
  qed
  have recnew: "is_record_for w' C' P' new \<longleftrightarrow> C = C' \<and> strcmp P P'" for C' P'
    by (simp add: is_record_for_def mods bufs r)
  from miss have nomatch: "\<not> is_record_for w C P a" if "a \<in> set as" for a
    using that by (auto simp: find_None_iff)
  have un': "registry_unique w' (new # as)"
    unfolding registry_unique_def
  proof (intro allI)
    fix C' P'
    have feq: "filter (is_record_for w' C' P') as = filter (is_record_for w C' P') as"
      by (rule filter_cong [OF refl]) (simp add: rec)
    show "length (filter (is_record_for w' C' P') (new # as)) \<le> 1"
    proof (cases "C = C' \<and> strcmp P P'")
      case True
      have "\<not> is_record_for w C' P' a" if a: "a \<in> set as" for a
      proof
        assume m: "is_record_for w C' P' a"
        then obtain ra s where "modules w a = Some ra" "realm ra = C'"
          "buffers w (path_p ra) = Some s" "strcmp s P'"
          by (auto simp: is_record_for_def split: option.splits)
        with True have "is_record_for w C P a"
          by (auto simp: is_record_for_def intro: strcmp_trans)
        with nomatch [OF a] show False by simp
      qed
      then have "filter (is_record_for w C' P') as = []" by (simp add: filter_empty_conv)
      with True show ?thesis by (simp add: feq recnew)
    next
      case False
      then have "\<not> is_record_for w' C' P' new" by (simp only: recnew not_False_eq_True)
      moreover from un have "length (filter (is_record_for w C' P') as) \<le> 1"
        by (simp add: registry_unique_def)
      ultimately show ?thesis by (simp add: feq)
    qed
  qed
  from ok' un' show ?thesis by simp
qed



lemma resolve_base_fault:
  "resolve_base_path referrer w = Inl f \<Longrightarrow>
   jerry_port_module_resolve env specifier referrer user_p w = Some (Inl f)"
  by (simp add: jerry_port_module_resolve_def)

lemma resolve_step:
  assumes ok: "registry_ok w as" and un: "registry_unique w as"
    and run: "jerry_port_module_resolve env specifier referrer user_p w = Some (Inr (v, w'))"
  shows "\<exists>as'. registry_ok w' as' \<and> registry_unique w' as'
      \<and> (\<not> jerry_value_is_error v \<longrightarrow>
            (\<exists>a r. a \<in> set as'
               \<and> is_record_for w' (global_object env)
                    (canonical_path env specifier referrer w) a
               \<and> modules w' a = Some r \<and> module r = v))"
proof -
  let ?C = "global_object env"
  let ?P = "canonical_path env specifier referrer w"
  let ?src = "fread env (c_str ?P) (ftell env (c_str ?P))"
  let ?v0 = "parse env ?src (utf8_string specifier)"
  let ?fail = "\<not> malloc_in_path_pz env \<or> (0 < bn \<and> \<not> malloc_base_path_pz env)
            \<or> (bn = 0 \<and> getcwd env = None \<and> \<not> malloc_out_cwd_p env) \<or> \<not> malloc_path_p env"
  from run obtain bp bn where base: "resolve_base_path referrer w = Inr (bp, bn)"
    by (cases "resolve_base_path referrer w") (auto simp: resolve_base_fault)
  have a1: "malloc_in_path_p env"
  proof (rule ccontr)
    assume "\<not> malloc_in_path_p env"
    from resolve_in_path_null [OF base this, of specifier user_p] run show False by simp
  qed
  show ?thesis
  proof (cases "\<not> malloc_in_path_pz env \<or> (0 < bn \<and> \<not> malloc_base_path_pz env)
            \<or> (bn = 0 \<and> getcwd env = None \<and> \<not> malloc_out_cwd_p env) \<or> \<not> malloc_path_p env")
    case True
    from resolve_out_of_memory [OF ok base a1 True refl, of specifier user_p] run
    have v: "v = JS_error JERRY_ERROR_COMMON ''Out of memory''"
      and f: "modules w' = modules w" "module_head_p w' = module_head_p w"
        "buffers w' = (buffers w)(brk w \<mapsto> utf8_string specifier)" "brk w < brk w'"
      by auto
    have low: "\<forall>a. a < brk w \<longrightarrow> buffers w' a = buffers w a" by (simp add: f(3))
    have heap': "\<forall>a. a \<in> dom (buffers w') \<longrightarrow> a < brk w'"
    proof (intro allI impI)
      fix a assume "a \<in> dom (buffers w')"
      then consider "a = brk w" | "a \<in> dom (buffers w)" by (auto simp: f(3) split: if_splits)
      then show "a < brk w'"
      proof cases
        case 1 with f(4) show ?thesis by simp
      next
        case 2 with registry_ok_parts(5) [OF ok] have "a < brk w" by blast
        with f(4) show ?thesis by simp
      qed
    qed
    from f(4) have le: "brk w \<le> brk w'" by simp
    note fr = registry_frame [OF ok f(1,2) low heap' le]
    from fr(1) registry_unique_frame [OF un fr(2)] v show ?thesis
      by (intro exI [of _ as]) simp
  next
    case False
    then have allocs: "malloc_in_path_pz env" "0 < bn \<longrightarrow> malloc_base_path_pz env"
      "bn = 0 \<longrightarrow> getcwd env \<noteq> None \<or> malloc_out_cwd_p env" "malloc_path_p env"
      by auto
    show ?thesis
    proof (cases "find (is_record_for w ?C ?P) as")
      case (Some m)
      then have m: "m \<in> set as" "is_record_for w ?C ?P m"
        by (auto simp: find_Some_iff)
      then obtain r where r: "modules w m = Some r"
        by (auto simp: is_record_for_def split: option.splits)
      from resolve_hit [OF ok base a1 allocs Some r, of user_p] run
      have v: "v = module r"
        and f: "modules w' = modules w" "module_head_p w' = module_head_p w"
          "buffers w' = buffers w" "brk w \<le> brk w'"
        by auto
      from m(2) have "is_record_for w' ?C ?P m"
        by (simp only: is_record_for_cong [OF f(1) f(3)])
      with registry_same [OF ok un f] m(1) r v f(1) show ?thesis
        by (intro exI [of _ as]) auto
    next
      case None
      show ?thesis
      proof (cases "stat env (c_str ?P) = None \<or> stat env (c_str ?P) = Some S_IFDIR
        \<or> \<not> fopen env (c_str ?P) \<or> \<not> malloc_buffer_p env
        \<or> length (fread env (c_str ?P) (ftell env (c_str ?P))) \<noteq> ftell env (c_str ?P)")
        case True
        from resolve_unreadable [OF ok base a1 allocs refl None True refl, of user_p] run
        have v: "v = JS_error JERRY_ERROR_SYNTAX ''Module file not found''"
          and f: "modules w' = modules w" "module_head_p w' = module_head_p w"
            "buffers w' = buffers w" "brk w \<le> brk w'"
          by auto
        from registry_same [OF ok un f] v show ?thesis
          by (intro exI [of _ as]) simp
      next
        case readable: False
        note rp = resolve_parsed [OF ok base a1 allocs refl None readable refl refl refl refl,
            of user_p]
        show ?thesis
        proof (cases "jerry_value_is_error ?v0")
          case True
          from rp(1) [OF True] run
          have v: "v = ?v0"
            and f: "modules w' = modules w" "module_head_p w' = module_head_p w"
              "buffers w' = buffers w" "brk w \<le> brk w'"
            by auto
          from registry_same [OF ok un f] v True show ?thesis
            by (intro exI [of _ as]) simp
        next
          case good: False
          have mm: "malloc_module_p env"
          proof (rule ccontr)
            assume "\<not> malloc_module_p env"
            from rp(2) [OF good this] run show False by simp
          qed
          from rp(3) [OF good mm] run obtain pp new where
            v: "v = ?v0"
            and hd: "module_head_p w' = Some new"
            and mods: "modules w' = (modules w)(new \<mapsto>
               \<lparr>next_p = module_head_p w, path_p = pp,
                base_path_length = jerry_port_get_directory_end (defined_WIN32 env) ?P,
                realm = ?C, module = ?v0\<rparr>)"
            and bufs: "buffers w' = (buffers w)(pp \<mapsto> ?P)"
            and ord: "brk w < pp" "pp < new" "new < brk w'"
            by auto
          let ?r = "\<lparr>next_p = module_head_p w, path_p = pp,
                base_path_length = jerry_port_get_directory_end (defined_WIN32 env) ?P,
                realm = ?C, module = ?v0\<rparr>"
          have inv: "registry_ok w' (new # as) \<and> registry_unique w' (new # as)"
            by (rule registry_insert [OF ok un None hd mods _ _ _ bufs ord]) simp_all
          have "is_record_for w' ?C ?P new"
            by (simp add: is_record_for_def mods bufs strcmp_def)
          moreover have "modules w' new = Some ?r" by (simp add: mods)
          ultimately show ?thesis using inv v
            by (intro exI [of _ "new # as"]) auto
        qed
      qed
    qed
  qed
qed

lemma release_step:
  assumes ok: "registry_ok w as" and un: "registry_unique w as"
    and run: "jerry_port_module_release rv w = Some (Inr w')"
  shows "\<exists>as'. registry_ok w' as' \<and> registry_unique w' as'"
proof -
  from registry_ok_parts(1) [OF ok] have reg: "registry w as" by (simp add: registry_def)
  from module_free_correct [OF reg, of rv] run
  have post: "free_post (\<not> jerry_value_is_object rv) rv w [] as w'"
    by (auto simp: jerry_port_module_release_def)
  from registry_ok_free [OF post ok] registry_unique_free [OF post ok un]
  show ?thesis by blast
qed

lemma initial_world_ok: "registry_ok initial_world [] \<and> registry_unique initial_world []"
  by (simp add: registry_ok_def registry_unique_def registry_def initial_world_def
        jerry_port_module_manager_init_def)

lemma reachable_invariant:
  "reachable w \<Longrightarrow> \<exists>as. registry_ok w as \<and> registry_unique w as"
proof (induction rule: reachable.induct)
  case reachable_init
  from initial_world_ok show ?case by blast
next
  case (reachable_resolve w env specifier referrer user_p v w')
  then obtain as where "registry_ok w as" "registry_unique w as" by blast
  from resolve_step [OF this reachable_resolve.hyps(2)] show ?case by blast
next
  case (reachable_release w realm' w')
  then obtain as where "registry_ok w as" "registry_unique w as" by blast
  from release_step [OF this reachable_release.hyps(2)] show ?case by blast
qed



text \<open>
  A resolution that returns leaves every descriptor of the list where it is, with its path:
  it writes only to memory that it allocates itself.
\<close>

lemma kept_record:
  assumes ok: "registry_ok w as" and a: "a \<in> set as"
    and low: "\<forall>x. x < brk w \<longrightarrow> modules w' x = modules w x \<and> buffers w' x = buffers w x"
  shows "modules w' a = modules w a"
    and "is_record_for w' C P a = is_record_for w C P a"
proof -
  from registry_ok_parts(1) [OF ok] a have live: "modules w a \<noteq> None" by (rule module_list_live)
  then have "a \<in> dom (modules w)" by auto
  with registry_ok_parts(6) [OF ok] have "a < brk w" by blast
  with low show m: "modules w' a = modules w a" by simp
  from live obtain r where r: "modules w a = Some r" by auto
  from owned_path_below_brk [OF ok a r] low
  have "buffers w' (path_p r) = buffers w (path_p r)" by simp
  with m r show "is_record_for w' C P a = is_record_for w C P a"
    by (simp add: is_record_for_def)
qed

lemma resolve_low:
  assumes ok: "registry_ok w as"
    and run: "jerry_port_module_resolve env specifier referrer user_p w = Some (Inr (v, w'))"
  shows "\<forall>x. x < brk w \<longrightarrow> modules w' x = modules w x \<and> buffers w' x = buffers w x"
proof -
  let ?C = "global_object env"
  let ?P = "canonical_path env specifier referrer w"
  let ?src = "fread env (c_str ?P) (ftell env (c_str ?P))"
  let ?v0 = "parse env ?src (utf8_string specifier)"
  from run obtain bp bn where base: "resolve_base_path referrer w = Inr (bp, bn)"
    by (cases "resolve_base_path referrer w") (auto simp: resolve_base_fault)
  have a1: "malloc_in_path_p env"
  proof (rule ccontr)
    assume "\<not> malloc_in_path_p env"
    from resolve_in_path_null [OF base this, of specifier user_p] run show False by simp
  qed
  show ?thesis
  proof (cases "\<not> malloc_in_path_pz env \<or> (0 < bn \<and> \<not> malloc_base_path_pz env)
            \<or> (bn = 0 \<and> getcwd env = None \<and> \<not> malloc_out_cwd_p env) \<or> \<not> malloc_path_p env")
    case True
    from resolve_out_of_memory [OF ok base a1 True refl, of specifier user_p] run
    have "modules w' = modules w" "buffers w' = (buffers w)(brk w \<mapsto> utf8_string specifier)"
      by auto
    then show ?thesis by simp
  next
    case False
    then have allocs: "malloc_in_path_pz env" "0 < bn \<longrightarrow> malloc_base_path_pz env"
      "bn = 0 \<longrightarrow> getcwd env \<noteq> None \<or> malloc_out_cwd_p env" "malloc_path_p env"
      by auto
    show ?thesis
    proof (cases "find (is_record_for w ?C ?P) as")
      case (Some m)
      then have "is_record_for w ?C ?P m" by (auto simp: find_Some_iff)
      then obtain r where r: "modules w m = Some r"
        by (auto simp: is_record_for_def split: option.splits)
      from resolve_hit [OF ok base a1 allocs Some r, of user_p] run
      have "modules w' = modules w" "buffers w' = buffers w" by auto
      then show ?thesis by simp
    next
      case None
      show ?thesis
      proof (cases "stat env (c_str ?P) = None \<or> stat env (c_str ?P) = Some S_IFDIR
        \<or> \<not> fopen env (c_str ?P) \<or> \<not> malloc_buffer_p env
        \<or> length (fread env (c_str ?P) (ftell env (c_str ?P))) \<noteq> ftell env (c_str ?P)")
        case True
        from resolve_unreadable [OF ok base a1 allocs refl None True refl, of user_p] run
        have "modules w' = modules w" "buffers w' = buffers w" by auto
        then show ?thesis by simp
      next
        case readable: False
        note rp = resolve_parsed [OF ok base a1 allocs refl None readable refl refl refl refl,
            of user_p]
        show ?thesis
        proof (cases "jerry_value_is_error ?v0")
          case True
          from rp(1) [OF True] run
          have "modules w' = modules w" "buffers w' = buffers w" by auto
          then show ?thesis by simp
        next
          case good: False
          have mm: "malloc_module_p env"
          proof (rule ccontr)
            assume "\<not> malloc_module_p env"
            from rp(2) [OF good this] run show False by simp
          qed
          from rp(3) [OF good mm] run obtain pp new r where
            mods: "modules w' = (modules w)(new \<mapsto> r)"
            and bufs: "buffers w' = (buffers w)(pp \<mapsto> ?P)"
            and ord: "brk w < pp" "pp < new"
            by auto
          then show ?thesis by simp
        qed
      qed
    qed
  qed
qed

lemma resolutions_keep:
  assumes "resolutions w w'" and "registry_ok w as" and "registry_unique w as"
  shows "\<exists>as'. registry_ok w' as' \<and> registry_unique w' as' \<and> set as \<subseteq> set as'
      \<and> (\<forall>a. a \<in> set as \<longrightarrow> modules w' a = modules w a)
      \<and> (\<forall>a C P. a \<in> set as \<longrightarrow> is_record_for w' C P a = is_record_for w C P a)"
  using assms
proof (induction rule: resolutions.induct)
  case (resolutions_none w)
  then show ?case by (intro exI [of _ as]) simp
next
  case (resolutions_resolve w w' env specifier referrer user_p v w'')
  from resolutions_resolve.IH [OF resolutions_resolve.prems] obtain as' where
    ok': "registry_ok w' as'" and un': "registry_unique w' as'" and sub: "set as \<subseteq> set as'"
    and m: "\<forall>a. a \<in> set as \<longrightarrow> modules w' a = modules w a"
    and rc: "\<forall>a C P. a \<in> set as \<longrightarrow> is_record_for w' C P a = is_record_for w C P a"
    by blast
  from resolve_step [OF ok' un' resolutions_resolve.hyps(2)] obtain as'' where
    ok'': "registry_ok w'' as''" and un'': "registry_unique w'' as''"
    by blast
  note low = resolve_low [OF ok' resolutions_resolve.hyps(2)]
  have keep: "modules w'' a = modules w' a" "is_record_for w'' C P a = is_record_for w' C P a"
    if "a \<in> set as'" for a C P
    using kept_record [OF ok' that low] by simp_all
  have sub': "set as' \<subseteq> set as''"
  proof
    fix a assume a: "a \<in> set as'"
    from registry_ok_parts(1) [OF ok'] a have "modules w' a \<noteq> None" by (rule module_list_live)
    with keep(1) [OF a] have "a \<in> dom (modules w'')" by auto
    with registry_ok_parts(4) [OF ok''] show "a \<in> set as''" by blast
  qed
  have m'': "\<forall>a. a \<in> set as \<longrightarrow> modules w'' a = modules w a"
  proof (intro allI impI)
    fix a assume a: "a \<in> set as"
    with sub have "a \<in> set as'" by blast
    from keep(1) [OF this] m a show "modules w'' a = modules w a" by simp
  qed
  have rc'': "\<forall>a C P. a \<in> set as \<longrightarrow> is_record_for w'' C P a = is_record_for w C P a"
  proof (intro allI impI)
    fix a C P assume a: "a \<in> set as"
    with sub have "a \<in> set as'" by blast
    from keep(2) [OF this] rc a show "is_record_for w'' C P a = is_record_for w C P a" by simp
  qed
  from sub sub' have "set as \<subseteq> set as''" by blast
  with ok'' un'' m'' rc'' show ?case by (intro exI [of _ as''] conjI)
qed

lemma initial_base: "resolve_base_path JS_undefined initial_world = Inr (None, 0)"
  by (simp add: resolve_base_path_def jerry_get_object_native_pointer_def initial_world_def
        jerry_port_module_manager_init_def)

lemma initial_canonical_path:
  "canonical_path example_env (JS_string s) JS_undefined initial_world = ''/'' @ c_str s"
  by (simp add: canonical_path_def base_directory_def initial_base cwd_def example_env_def)

lemma example_allocs:
  "malloc_in_path_p example_env" "malloc_in_path_pz example_env"
  "0 < (0::nat) \<longrightarrow> malloc_base_path_pz example_env"
  "(0::nat) = 0 \<longrightarrow> getcwd example_env \<noteq> None \<or> malloc_out_cwd_p example_env"
  "malloc_path_p example_env"
  by (simp_all add: example_env_def)

lemma example_readable:
  "P = ''/a.js'' \<or> P = ''/b.js'' \<or> P = ''/bad.js'' \<Longrightarrow>
   \<not> (stat example_env (c_str P) = None \<or> stat example_env (c_str P) = Some S_IFDIR
      \<or> \<not> fopen example_env (c_str P) \<or> \<not> malloc_buffer_p example_env
      \<or> length (fread example_env (c_str P) (ftell example_env (c_str P)))
           \<noteq> ftell example_env (c_str P))"
  by (auto simp: example_env_def)

text \<open>
  C2. In every state reached from the initial one by calls of
  \<^verbatim>\<open>jerry_port_module_resolve\<close> and \<^verbatim>\<open>jerry_port_module_release\<close> that return, the list of
  modules is well formed and, for every realm \<open>C\<close> and every string \<open>P\<close>, holds at most one
  descriptor whose realm is \<open>C\<close> and whose path compares equal to \<open>P\<close>.
\<close>

theorem registry_unique_per_context:
  "reachable w \<Longrightarrow>
   \<exists>as. registry_ok w as \<and> (\<forall>C P. length (filter (is_record_for w C P) as) \<le> 1)"
  using reachable_invariant [of w] by (simp add: registry_unique_def)

theorem registry_unique_per_context_witness:
  "\<exists>w'. jerry_port_module_resolve example_env (JS_string ''a.js'') JS_undefined None initial_world
           = Some (Inr (JS_object 20, w'))
       \<and> reachable w'
       \<and> (\<exists>as. registry_ok w' as \<and> as \<noteq> []
             \<and> length (filter (is_record_for w' (JS_object 1) ''/a.js'') as) = 1)"
proof -
  let ?P = "''/a.js''"
  let ?s = "JS_string ''a.js''"
  have ok0: "registry_ok initial_world []" using initial_world_ok by simp
  have P: "?P = canonical_path example_env ?s JS_undefined initial_world"
    by (simp add: initial_canonical_path)
  have miss: "find (is_record_for initial_world (global_object example_env) ?P) [] = None"
    by simp
  have rd: "\<not> (stat example_env (c_str ?P) = None \<or> stat example_env (c_str ?P) = Some S_IFDIR
      \<or> \<not> fopen example_env (c_str ?P) \<or> \<not> malloc_buffer_p example_env
      \<or> length (fread example_env (c_str ?P) (ftell example_env (c_str ?P)))
           \<noteq> ftell example_env (c_str ?P))"
    by (rule example_readable) simp
  have v: "JS_object 20 = parse example_env
             (fread example_env (c_str ?P) (ftell example_env (c_str ?P))) (utf8_string ?s)"
    by (simp add: example_env_def)
  have good: "\<not> jerry_value_is_error (JS_object 20)" "malloc_module_p example_env"
    by (simp_all add: example_env_def)
  from resolve_parsed(3) [OF ok0 initial_base example_allocs P miss rd refl v refl refl good,
      of None]
  obtain w' pp new where
    run: "jerry_port_module_resolve example_env ?s JS_undefined None initial_world
           = Some (Inr (JS_object 20, w'))"
    and hd: "module_head_p w' = Some new"
    and mods: "modules w' = (modules initial_world)(new \<mapsto>
             \<lparr>next_p = module_head_p initial_world, path_p = pp,
              base_path_length = jerry_port_get_directory_end (defined_WIN32 example_env) ?P,
              realm = global_object example_env, module = JS_object 20\<rparr>)"
    and bufs: "buffers w' = (buffers initial_world)(pp \<mapsto> ?P)"
    by blast
  from reachable_init run have r: "reachable w'" by (rule reachable_resolve)
  from registry_unique_per_context [OF r] obtain as where
    ok: "registry_ok w' as"
    and un: "\<forall>C P. length (filter (is_record_for w' C P) as) \<le> 1"
    by blast
  from registry_ok_parts(1) [OF ok] hd obtain bs where as: "as = new # bs"
    by (cases as) auto
  have "is_record_for w' (JS_object 1) ?P new"
    by (simp add: is_record_for_def mods bufs strcmp_def example_env_def)
  then have "1 \<le> length (filter (is_record_for w' (JS_object 1) ?P) as)"
    by (simp add: as)
  moreover from un have "length (filter (is_record_for w' (JS_object 1) ?P) as) \<le> 1"
    by blast
  ultimately have "length (filter (is_record_for w' (JS_object 1) ?P) as) = 1" by simp
  with ok as have "\<exists>as. registry_ok w' as \<and> as \<noteq> []
             \<and> length (filter (is_record_for w' (JS_object 1) ''/a.js'') as) = 1"
    by (intro exI [of _ as]) simp
  with run r show ?thesis by (intro exI [of _ w']) simp
qed



subsection \<open>The cache\<close>

lemma unique_match:
  assumes un: "registry_unique w as" and a: "a \<in> set as" "is_record_for w C P a"
    and m: "m \<in> set as" "is_record_for w C P m"
  shows "a = m"
proof -
  let ?xs = "filter (is_record_for w C P) as"
  from a m have in_xs: "a \<in> set ?xs" "m \<in> set ?xs" by simp_all
  from un have "length ?xs \<le> 1" by (simp add: registry_unique_def)
  then consider "?xs = []" | x where "?xs = [x]"
    by (cases ?xs) (auto simp: Suc_le_eq)
  then show ?thesis
  proof cases
    case 1 with in_xs show ?thesis by simp
  next
    case 2 with in_xs show ?thesis by simp
  qed
qed

lemma is_record_for_strcmp:
  "is_record_for w C P a \<Longrightarrow> strcmp P P' \<Longrightarrow> is_record_for w C P' a"
  by (auto simp: is_record_for_def strcmp_def split: option.splits)

lemma resolve_cached:
  assumes ok: "registry_ok w as" and un: "registry_unique w as"
    and base: "resolve_base_path referrer w = Inr (bp, bn)"
    and allocs: "malloc_in_path_p env" "malloc_in_path_pz env" "0 < bn \<longrightarrow> malloc_base_path_pz env"
      "bn = 0 \<longrightarrow> getcwd env \<noteq> None \<or> malloc_out_cwd_p env" "malloc_path_p env"
    and P: "P = canonical_path env specifier referrer w"
    and C: "C = global_object env"
    and a: "a \<in> set as" "is_record_for w C P a" and r: "modules w a = Some r"
  shows "\<exists>w'. jerry_port_module_resolve env specifier referrer user_p w = Some (Inr (module r, w'))
      \<and> trace w' = trace w
      \<and> modules w' = modules w \<and> module_head_p w' = module_head_p w \<and> buffers w' = buffers w
      \<and> refs w' = (refs w)(module r := refs w (module r) + 1)
      \<and> native w' = native w"
proof -
  from a have "find (is_record_for w C P) as \<noteq> None" by (auto simp: find_None_iff)
  then obtain m where f: "find (is_record_for w C P) as = Some m" by auto
  then have "m \<in> set as" "is_record_for w C P m" by (auto simp: find_Some_iff)
  with unique_match [OF un a] have "a = m" by simp
  with f have found: "find (is_record_for w (global_object env)
                        (canonical_path env specifier referrer w)) as = Some a"
    by (simp add: P C)
  from resolve_hit [OF ok base allocs found r, of user_p] show ?thesis by blast
qed



lemma resolve_later:
  assumes ok0: "registry_ok w0 as0" and un0: "registry_unique w0 as0"
    and run0: "jerry_port_module_resolve env0 specifier0 referrer0 user_p0 w0 = Some (Inr (v, w1))"
    and v: "\<not> jerry_value_is_error v"
    and later: "resolutions w1 w"
    and base: "resolve_base_path referrer w = Inr (bp, bn)"
    and allocs: "malloc_in_path_p env" "malloc_in_path_pz env" "0 < bn \<longrightarrow> malloc_base_path_pz env"
      "bn = 0 \<longrightarrow> getcwd env \<noteq> None \<or> malloc_out_cwd_p env" "malloc_path_p env"
    and realm: "global_object env0 = global_object env"
    and path: "strcmp (canonical_path env0 specifier0 referrer0 w0)
                 (canonical_path env specifier referrer w)"
  shows "\<exists>w'. jerry_port_module_resolve env specifier referrer user_p w = Some (Inr (v, w'))
      \<and> trace w' = trace w \<and> modules w' = modules w \<and> module_head_p w' = module_head_p w
      \<and> buffers w' = buffers w"
proof -
  from resolve_step [OF ok0 un0 run0] v obtain as1 a r where
    ok1: "registry_ok w1 as1" and un1: "registry_unique w1 as1"
    and a: "a \<in> set as1"
      "is_record_for w1 (global_object env0) (canonical_path env0 specifier0 referrer0 w0) a"
    and r: "modules w1 a = Some r" "module r = v"
    by blast
  from resolutions_keep [OF later ok1 un1] obtain as where
    ok: "registry_ok w as" and un: "registry_unique w as" and sub: "set as1 \<subseteq> set as"
    and m: "\<forall>a. a \<in> set as1 \<longrightarrow> modules w a = modules w1 a"
    and rc: "\<forall>a C P. a \<in> set as1 \<longrightarrow> is_record_for w C P a = is_record_for w1 C P a"
    by blast
  from a(1) sub have a_in: "a \<in> set as" by blast
  from rc a have "is_record_for w (global_object env0)
                    (canonical_path env0 specifier0 referrer0 w0) a"
    by blast
  from this path have a': "is_record_for w (global_object env)
                             (canonical_path env specifier referrer w) a"
    unfolding realm by (rule is_record_for_strcmp)
  from m a(1) r(1) have r': "modules w a = Some r" by simp
  from resolve_cached [OF ok un base allocs refl refl a_in a' r', of user_p] r(2)
  show ?thesis by auto
qed

text \<open>
  C1, as the code has it. When the list holds a descriptor of the current realm whose path
  compares equal to the canonical path of the resolution, \<^verbatim>\<open>jerry_port_module_resolve\<close>
  returns the module of that descriptor with one more reference to it, calls neither
  \<^verbatim>\<open>jerry_port_read_source\<close> nor \<^verbatim>\<open>jerry_parse\<close> (the trace is unchanged), frees the
  specifier and the path buffers (the heap is as before) and leaves the list alone.
  Consequently, after a resolution that returned a module (not an error), and after any
  number of further resolutions but no release, a resolution in the same realm that
  reaches the same canonical path returns the same value without reading or parsing again.
\<close>

theorem resolve_cache_hit:
  assumes "resolve_base_path referrer w = Inr (bp, bn)"
    and "malloc_in_path_p env" and "malloc_in_path_pz env"
    and "0 < bn \<longrightarrow> malloc_base_path_pz env"
    and "bn = 0 \<longrightarrow> getcwd env \<noteq> None \<or> malloc_out_cwd_p env"
    and "malloc_path_p env"
    and "P = canonical_path env specifier referrer w"
    and "C = global_object env"
  shows "(\<forall>as a r. registry_ok w as \<and> registry_unique w as
            \<and> a \<in> set as \<and> is_record_for w C P a \<and> modules w a = Some r \<longrightarrow>
          (\<exists>w'. jerry_port_module_resolve env specifier referrer user_p w
                   = Some (Inr (module r, w'))
              \<and> trace w' = trace w
              \<and> modules w' = modules w \<and> module_head_p w' = module_head_p w
              \<and> buffers w' = buffers w
              \<and> refs w' = (refs w)(module r := refs w (module r) + 1)
              \<and> native w' = native w))
    \<and> (\<forall>env0 specifier0 referrer0 user_p0 w0 as0 v w1.
          registry_ok w0 as0 \<and> registry_unique w0 as0
            \<and> jerry_port_module_resolve env0 specifier0 referrer0 user_p0 w0 = Some (Inr (v, w1))
            \<and> \<not> jerry_value_is_error v
            \<and> global_object env0 = C
            \<and> strcmp (canonical_path env0 specifier0 referrer0 w0) P
            \<and> resolutions w1 w \<longrightarrow>
          (\<exists>w'. jerry_port_module_resolve env specifier referrer user_p w = Some (Inr (v, w'))
              \<and> trace w' = trace w \<and> modules w' = modules w
              \<and> module_head_p w' = module_head_p w \<and> buffers w' = buffers w))"
proof (intro conjI allI impI)
  fix as a r
  assume h: "registry_ok w as \<and> registry_unique w as
            \<and> a \<in> set as \<and> is_record_for w C P a \<and> modules w a = Some r"
  then have ok: "registry_ok w as" and un: "registry_unique w as"
    and a: "a \<in> set as" "is_record_for w C P a" and r: "modules w a = Some r"
    by blast+
  show "\<exists>w'. jerry_port_module_resolve env specifier referrer user_p w
                   = Some (Inr (module r, w'))
              \<and> trace w' = trace w
              \<and> modules w' = modules w \<and> module_head_p w' = module_head_p w
              \<and> buffers w' = buffers w
              \<and> refs w' = (refs w)(module r := refs w (module r) + 1)
              \<and> native w' = native w"
    by (rule resolve_cached [OF ok un assms a r])
next
  fix env0 specifier0 referrer0 user_p0 w0 as0 v w1
  assume h: "registry_ok w0 as0 \<and> registry_unique w0 as0
            \<and> jerry_port_module_resolve env0 specifier0 referrer0 user_p0 w0 = Some (Inr (v, w1))
            \<and> \<not> jerry_value_is_error v
            \<and> global_object env0 = C
            \<and> strcmp (canonical_path env0 specifier0 referrer0 w0) P
            \<and> resolutions w1 w"
  then have ok0: "registry_ok w0 as0" and un0: "registry_unique w0 as0"
    and run0: "jerry_port_module_resolve env0 specifier0 referrer0 user_p0 w0 = Some (Inr (v, w1))"
    and v: "\<not> jerry_value_is_error v"
    and realm: "global_object env0 = global_object env"
    and path: "strcmp (canonical_path env0 specifier0 referrer0 w0)
                 (canonical_path env specifier referrer w)"
    and later: "resolutions w1 w"
    by (simp_all add: assms(7,8))
  show "\<exists>w'. jerry_port_module_resolve env specifier referrer user_p w = Some (Inr (v, w'))
              \<and> trace w' = trace w \<and> modules w' = modules w
              \<and> module_head_p w' = module_head_p w \<and> buffers w' = buffers w"
    by (rule resolve_later [OF ok0 un0 run0 v later assms(1-6) realm path])
qed

lemma example_world_unique: "registry_unique example_world [2, 4]"
  by (auto simp: registry_unique_def example_records)

text \<open>The state after \<^verbatim>\<open>a.js\<close> is loaded into the initial state.\<close>

lemma example_loaded:
  "\<exists>w1 new r.
     jerry_port_module_resolve example_env (JS_string ''a.js'') JS_undefined None initial_world
       = Some (Inr (JS_object 20, w1))
     \<and> registry_ok w1 [new] \<and> registry_unique w1 [new]
     \<and> modules w1 new = Some r \<and> realm r = JS_object 1 \<and> module r = JS_object 20
     \<and> (\<forall>C P. is_record_for w1 C P new \<longleftrightarrow> C = JS_object 1 \<and> strcmp ''/a.js'' P)
     \<and> native w1 = [JS_object 20 \<mapsto> new]
     \<and> trace w1 = [Ev_read_source ''/a.js'', Ev_parse ''x=1'' ''a.js'']"
proof -
  let ?P = "''/a.js''"
  let ?s = "JS_string ''a.js''"
  have cP: "c_str ?P = ?P" by simp
  have ok0: "registry_ok initial_world []" and un0: "registry_unique initial_world []"
    using initial_world_ok by simp_all
  have P0: "?P = canonical_path example_env ?s JS_undefined initial_world"
    by (simp add: initial_canonical_path)
  have miss: "find (is_record_for initial_world (global_object example_env) ?P) [] = None"
    by simp
  have rd: "\<not> (stat example_env (c_str ?P) = None \<or> stat example_env (c_str ?P) = Some S_IFDIR
      \<or> \<not> fopen example_env (c_str ?P) \<or> \<not> malloc_buffer_p example_env
      \<or> length (fread example_env (c_str ?P) (ftell example_env (c_str ?P)))
           \<noteq> ftell example_env (c_str ?P))"
    by (rule example_readable) simp
  have src: "''x=1'' = fread example_env (c_str ?P) (ftell example_env (c_str ?P))"
    unfolding cP by (simp add: example_env_def)
  have v: "JS_object 20 = parse example_env ''x=1'' (utf8_string ?s)"
    by (simp add: example_env_def)
  have good: "\<not> jerry_value_is_error (JS_object 20)" "malloc_module_p example_env"
    by (simp_all add: example_env_def)
  from resolve_parsed(3) [OF ok0 initial_base example_allocs P0 miss rd src v refl refl good,
      of None]
  obtain w pp new where
    run: "jerry_port_module_resolve example_env ?s JS_undefined None initial_world
           = Some (Inr (JS_object 20, w))"
    and hd: "module_head_p w = Some new"
    and mods: "modules w = (modules initial_world)(new \<mapsto>
             \<lparr>next_p = module_head_p initial_world, path_p = pp,
              base_path_length = jerry_port_get_directory_end (defined_WIN32 example_env) ?P,
              realm = global_object example_env, module = JS_object 20\<rparr>)"
    and bufs: "buffers w = (buffers initial_world)(pp \<mapsto> ?P)"
    and ord: "brk initial_world < pp" "pp < new" "new < brk w"
    and nat: "native w = (native initial_world)(JS_object 20 \<mapsto> new)"
    and tr: "trace w = trace initial_world @ [Ev_read_source (c_str ?P), Ev_parse ''x=1'' (utf8_string ?s)]"
    by blast
  let ?r = "\<lparr>next_p = module_head_p initial_world, path_p = pp,
              base_path_length = jerry_port_get_directory_end (defined_WIN32 example_env) ?P,
              realm = global_object example_env, module = JS_object 20\<rparr>"
  have inv: "registry_ok w [new] \<and> registry_unique w [new]"
    by (rule registry_insert [OF ok0 un0 miss hd mods _ _ _ bufs ord]) simp_all
  have m: "modules w new = Some ?r" by (simp add: mods)
  have rr: "realm ?r = JS_object 1" "module ?r = JS_object 20" by (simp_all add: example_env_def)
  have rec: "\<forall>C P. is_record_for w C P new \<longleftrightarrow> C = JS_object 1 \<and> strcmp ?P P"
    by (auto simp: is_record_for_def mods bufs example_env_def)
  have nat': "native w = [JS_object 20 \<mapsto> new]"
    by (simp add: nat initial_world_def jerry_port_module_manager_init_def)
  have tr': "trace w = [Ev_read_source ?P, Ev_parse ''x=1'' ''a.js'']"
    by (simp add: tr initial_world_def jerry_port_module_manager_init_def)
  from run inv m rr rec nat' tr' show ?thesis
    by (intro exI [of _ w] exI [of _ new] exI [of _ ?r] conjI) simp_all
qed

lemma example_deleted_allocs:
  "malloc_in_path_p example_env_deleted" "malloc_in_path_pz example_env_deleted"
  "0 < (0::nat) \<longrightarrow> malloc_base_path_pz example_env_deleted"
  "(0::nat) = 0 \<longrightarrow> getcwd example_env_deleted \<noteq> None \<or> malloc_out_cwd_p example_env_deleted"
  "malloc_path_p example_env_deleted"
  by (simp_all add: example_env_deleted_def example_env_def)

theorem resolve_cache_hit_witness:
  "registry_ok example_world [2, 4] \<and> registry_unique example_world [2, 4]
   \<and> is_record_for example_world (JS_object 1) ''/a.js'' 2
   \<and> (\<exists>w'. jerry_port_module_resolve example_env (JS_string ''a.js'') JS_undefined None
               example_world = Some (Inr (JS_object 11, w'))
          \<and> trace w' = trace example_world
          \<and> modules w' = modules example_world
          \<and> buffers w' = buffers example_world
          \<and> refs w' (JS_object 11) = 2 \<and> refs w' (JS_object 1) = 1)
   \<and> (\<exists>w1 w2 w'. jerry_port_module_resolve example_env (JS_string ''a.js'') JS_undefined None
                 initial_world = Some (Inr (JS_object 20, w1))
          \<and> jerry_port_module_resolve example_env (JS_string ''b.js'') JS_undefined None w1
               = Some (Inr (JS_object 20, w2))
          \<and> resolutions w1 w2
          \<and> jerry_port_module_resolve example_env (JS_string ''a.js'') JS_undefined None w2
               = Some (Inr (JS_object 20, w'))
          \<and> trace w' = [Ev_read_source ''/a.js'', Ev_parse ''x=1'' ''a.js'',
                         Ev_read_source ''/b.js'', Ev_parse ''x=1'' ''b.js''])"
proof -
  let ?P = "''/a.js''"
  let ?s = "JS_string ''a.js''"
  let ?r2 = "\<lparr>next_p = Some 4, path_p = 1, base_path_length = 1,
                        realm = JS_object 1, module = JS_object 11\<rparr>"
  have g: "JS_object 1 = global_object example_env" by (simp add: example_env_def)
  \<comment> \<open>a hit on the example list\<close>
  have P1: "?P = canonical_path example_env ?s JS_undefined example_world"
    by (simp add: example_canonical_path)
  have rec2: "is_record_for example_world (JS_object 1) ?P 2"
    by (simp add: example_records strcmp_def)
  have m2: "modules example_world 2 = Some ?r2" by (simp add: example_world_def)
  from resolve_cache_hit [OF example_base example_allocs P1 g, of None,
      THEN conjunct1, rule_format, of "[2, 4]" 2 ?r2]
    example_world_ok example_world_unique rec2 m2
  obtain w1 where
    h1: "jerry_port_module_resolve example_env ?s JS_undefined None example_world
           = Some (Inr (module ?r2, w1))"
      "trace w1 = trace example_world" "modules w1 = modules example_world"
      "buffers w1 = buffers example_world"
      "refs w1 = (refs example_world)(module ?r2 := refs example_world (module ?r2) + 1)"
    by auto
  then have A: "\<exists>w'. jerry_port_module_resolve example_env ?s JS_undefined None
               example_world = Some (Inr (JS_object 11, w'))
          \<and> trace w' = trace example_world
          \<and> modules w' = modules example_world
          \<and> buffers w' = buffers example_world
          \<and> refs w' (JS_object 11) = 2 \<and> refs w' (JS_object 1) = 1"
    by (intro exI [of _ w1]) (simp add: example_world_def)
  \<comment> \<open>\<^verbatim>\<open>a.js\<close> is loaded, then \<^verbatim>\<open>b.js\<close>, then \<^verbatim>\<open>a.js\<close> is imported again\<close>
  let ?Q = "''/b.js''"
  let ?t = "JS_string ''b.js''"
  have cQ: "c_str ?Q = ?Q" by simp
  have ok0: "registry_ok initial_world []" and un0: "registry_unique initial_world []"
    using initial_world_ok by simp_all
  from example_loaded obtain w1 new r where
    run1: "jerry_port_module_resolve example_env ?s JS_undefined None initial_world
             = Some (Inr (JS_object 20, w1))"
    and ok1: "registry_ok w1 [new]"
    and rec1: "\<forall>C P. is_record_for w1 C P new \<longleftrightarrow> C = JS_object 1 \<and> strcmp ?P P"
    and nat1: "native w1 = [JS_object 20 \<mapsto> new]"
    and tr1: "trace w1 = [Ev_read_source ?P, Ev_parse ''x=1'' ''a.js'']"
    by blast
  have base1: "resolve_base_path JS_undefined w1 = Inr (None, 0)"
    by (simp add: resolve_base_path_def jerry_get_object_native_pointer_def nat1)
  have Q1: "?Q = canonical_path example_env ?t JS_undefined w1"
    by (simp add: canonical_path_def base_directory_def base1 cwd_def example_env_def)
  have miss1: "find (is_record_for w1 (global_object example_env) ?Q) [new] = None"
    by (simp add: rec1 strcmp_def)
  have rd: "\<not> (stat example_env (c_str ?Q) = None \<or> stat example_env (c_str ?Q) = Some S_IFDIR
      \<or> \<not> fopen example_env (c_str ?Q) \<or> \<not> malloc_buffer_p example_env
      \<or> length (fread example_env (c_str ?Q) (ftell example_env (c_str ?Q)))
           \<noteq> ftell example_env (c_str ?Q))"
    by (rule example_readable) simp
  have src: "''x=1'' = fread example_env (c_str ?Q) (ftell example_env (c_str ?Q))"
    unfolding cQ by (simp add: example_env_def)
  have v: "JS_object 20 = parse example_env ''x=1'' (utf8_string ?t)"
    by (simp add: example_env_def)
  have good: "\<not> jerry_value_is_error (JS_object 20)" "malloc_module_p example_env"
    by (simp_all add: example_env_def)
  from resolve_parsed(3) [OF ok1 base1 example_allocs Q1 miss1 rd src v refl refl good, of None]
  obtain w2 new2 where
    run2: "jerry_port_module_resolve example_env ?t JS_undefined None w1
             = Some (Inr (JS_object 20, w2))"
    and nat2: "native w2 = (native w1)(JS_object 20 \<mapsto> new2)"
    and tr2: "trace w2 = trace w1 @ [Ev_read_source (c_str ?Q), Ev_parse ''x=1'' (utf8_string ?t)]"
    by blast
  from resolutions_none run2 have later: "resolutions w1 w2" by (rule resolutions_resolve)
  have base2: "resolve_base_path JS_undefined w2 = Inr (None, 0)"
    by (simp add: resolve_base_path_def jerry_get_object_native_pointer_def nat2 nat1)
  have P2: "?P = canonical_path example_env ?s JS_undefined w2"
    by (simp add: canonical_path_def base_directory_def base2 cwd_def example_env_def)
  have same: "strcmp (canonical_path example_env ?s JS_undefined initial_world) ?P"
    by (simp add: initial_canonical_path strcmp_def)
  from resolve_cache_hit [OF base2 example_allocs P2 g, of None, THEN conjunct2, rule_format,
      of initial_world "[]" example_env ?s JS_undefined None "JS_object 20" w1]
    ok0 un0 run1 good(1) g same later
  obtain w' where
    run3: "jerry_port_module_resolve example_env ?s JS_undefined None w2
             = Some (Inr (JS_object 20, w'))"
    and tr3: "trace w' = trace w2"
    by auto
  have "trace w' = [Ev_read_source ?P, Ev_parse ''x=1'' ''a.js'',
                    Ev_read_source ?Q, Ev_parse ''x=1'' ''b.js'']"
    by (simp add: tr3 tr2 tr1)
  with run1 run2 later run3 have B: "\<exists>w1 w2 w'.
            jerry_port_module_resolve example_env ?s JS_undefined None
                 initial_world = Some (Inr (JS_object 20, w1))
          \<and> jerry_port_module_resolve example_env ?t JS_undefined None w1
               = Some (Inr (JS_object 20, w2))
          \<and> resolutions w1 w2
          \<and> jerry_port_module_resolve example_env ?s JS_undefined None w2
               = Some (Inr (JS_object 20, w'))
          \<and> trace w' = [Ev_read_source ''/a.js'', Ev_parse ''x=1'' ''a.js'',
                         Ev_read_source ''/b.js'', Ev_parse ''x=1'' ''b.js'']"
    by (intro exI [of _ w1] exI [of _ w2] exI [of _ w'] conjI)
  from example_world_ok example_world_unique rec2 A B show ?thesis by (intro conjI)
qed

text \<open>
  The second sentence of C1 as the specification states it, at most one parse of \<open>P\<close> for
  two resolutions that reach \<open>P\<close> in one realm, fails when the parse fails: nothing is
  cached, and the second resolution of \<^verbatim>\<open>bad.js\<close> reads and parses \<^verbatim>\<open>/bad.js\<close> again.
\<close>

theorem parse_repeated_after_parse_error:
  "returned_value (jerry_port_module_resolve example_env (JS_string ''bad.js'') JS_undefined
      None initial_world) = Some (JS_error JERRY_ERROR_SYNTAX ''Unexpected token'')
   \<and> trace (state_after
        (state_after initial_world
          (jerry_port_module_resolve example_env (JS_string ''bad.js'') JS_undefined None
             initial_world))
        (jerry_port_module_resolve example_env (JS_string ''bad.js'') JS_undefined None
          (state_after initial_world
            (jerry_port_module_resolve example_env (JS_string ''bad.js'') JS_undefined None
               initial_world))))
      = [Ev_read_source ''/bad.js'', Ev_parse ''x=1'' ''bad.js'',
         Ev_read_source ''/bad.js'', Ev_parse ''x=1'' ''bad.js'']"
proof -
  let ?P = "''/bad.js''"
  let ?s = "JS_string ''bad.js''"
  let ?E = "JS_error JERRY_ERROR_SYNTAX ''Unexpected token''"
  have cP: "c_str ?P = ?P" by simp
  have ok0: "registry_ok initial_world []" and un0: "registry_unique initial_world []"
    using initial_world_ok by simp_all
  have P0: "?P = canonical_path example_env ?s JS_undefined initial_world"
    by (simp add: initial_canonical_path)
  have rd: "\<not> (stat example_env (c_str ?P) = None \<or> stat example_env (c_str ?P) = Some S_IFDIR
      \<or> \<not> fopen example_env (c_str ?P) \<or> \<not> malloc_buffer_p example_env
      \<or> length (fread example_env (c_str ?P) (ftell example_env (c_str ?P)))
           \<noteq> ftell example_env (c_str ?P))"
    by (rule example_readable) simp
  have src: "''x=1'' = fread example_env (c_str ?P) (ftell example_env (c_str ?P))"
    unfolding cP by (simp add: example_env_def)
  have v: "?E = parse example_env ''x=1'' (utf8_string ?s)"
    by (simp add: example_env_def)
  have err: "jerry_value_is_error ?E" by simp
  have miss0: "find (is_record_for initial_world (global_object example_env) ?P) [] = None"
    by simp
  from resolve_parsed(1) [OF ok0 initial_base example_allocs P0 miss0 rd src v refl refl err,
      of None]
  obtain w1 where
    run1: "jerry_port_module_resolve example_env ?s JS_undefined None initial_world
             = Some (Inr (?E, w1))"
    and f1: "modules w1 = modules initial_world" "module_head_p w1 = module_head_p initial_world"
      "buffers w1 = buffers initial_world" "brk initial_world \<le> brk w1"
    and n1: "native w1 = native initial_world"
    and t1: "trace w1 = trace initial_world
                @ [Ev_read_source (c_str ?P), Ev_parse ''x=1'' (utf8_string ?s)]"
    by blast
  from registry_same [OF ok0 un0 f1] have ok1: "registry_ok w1 []" by simp
  have base1: "resolve_base_path JS_undefined w1 = Inr (None, 0)"
    by (simp add: resolve_base_path_def jerry_get_object_native_pointer_def n1
          initial_world_def jerry_port_module_manager_init_def)
  have P1: "?P = canonical_path example_env ?s JS_undefined w1"
    by (simp add: canonical_path_def base_directory_def base1 cwd_def example_env_def)
  have miss1: "find (is_record_for w1 (global_object example_env) ?P) [] = None"
    by simp
  from resolve_parsed(1) [OF ok1 base1 example_allocs P1 miss1 rd src v refl refl err, of None]
  obtain w2 where
    run2: "jerry_port_module_resolve example_env ?s JS_undefined None w1 = Some (Inr (?E, w2))"
    and t2: "trace w2 = trace w1 @ [Ev_read_source (c_str ?P), Ev_parse ''x=1'' (utf8_string ?s)]"
    by blast
  have s1: "state_after initial_world
          (jerry_port_module_resolve example_env ?s JS_undefined None initial_world) = w1"
    by (simp add: run1 state_after_def)
  have s2: "state_after w1 (jerry_port_module_resolve example_env ?s JS_undefined None w1) = w2"
    by (simp add: run2 state_after_def)
  have "trace w2 = [Ev_read_source ?P, Ev_parse ''x=1'' ''bad.js'',
         Ev_read_source ?P, Ev_parse ''x=1'' ''bad.js'']"
    by (simp add: t2 t1 initial_world_def jerry_port_module_manager_init_def)
  moreover have "returned_value (jerry_port_module_resolve example_env ?s JS_undefined
      None initial_world) = Some ?E"
    by (simp add: run1 returned_value_def)
  ultimately show ?thesis by (simp only: s1 s2)
qed

text \<open>
  Nor does the cache outlive a release: \<^verbatim>\<open>jerry_port_module_release\<close> of the realm frees
  the descriptor of \<^verbatim>\<open>/a.js\<close>, and the next resolution reads and parses the file again.
\<close>

lemma parse_repeated_after_release:
  "\<exists>w1 w2 w3.
     jerry_port_module_resolve example_env (JS_string ''a.js'') JS_undefined None initial_world
       = Some (Inr (JS_object 20, w1))
     \<and> jerry_port_module_release (JS_object 1) w1 = Some (Inr w2)
     \<and> module_head_p w2 = None
     \<and> jerry_port_module_resolve example_env (JS_string ''a.js'') JS_undefined None w2
         = Some (Inr (JS_object 20, w3))
     \<and> trace w3 = [Ev_read_source ''/a.js'', Ev_parse ''x=1'' ''a.js'',
                    Ev_read_source ''/a.js'', Ev_parse ''x=1'' ''a.js'']"
proof -
  let ?P = "''/a.js''"
  let ?s = "JS_string ''a.js''"
  have cP: "c_str ?P = ?P" by simp
  from example_loaded obtain w1 new r where
    run1: "jerry_port_module_resolve example_env ?s JS_undefined None initial_world
             = Some (Inr (JS_object 20, w1))"
    and ok1: "registry_ok w1 [new]"
    and r: "modules w1 new = Some r" "realm r = JS_object 1"
    and nat1: "native w1 = [JS_object 20 \<mapsto> new]"
    and tr1: "trace w1 = [Ev_read_source ?P, Ev_parse ''x=1'' ''a.js'']"
    by blast
  have obj: "jerry_value_is_object (JS_object 1)" by simp
  have ne: "JS_object 1 \<noteq> JS_object 2" by simp
  from release_scoped_lemma [OF ok1 obj ne] obtain w2 where
    run2: "jerry_port_module_release (JS_object 1) w1 = Some (Inr w2)"
    and ok2': "registry_ok w2 (filter (\<lambda>a. \<not> released False (JS_object 1) w1 a) [new])"
    and nat2: "native w2 = native w1" and tr2: "trace w2 = trace w1"
    by blast
  have "released False (JS_object 1) w1 new" by (simp add: released_def r)
  with ok2' have ok2: "registry_ok w2 []" by simp
  from registry_ok_parts(1) [OF ok2] have hd2: "module_head_p w2 = None" by simp
  have base2: "resolve_base_path JS_undefined w2 = Inr (None, 0)"
    by (simp add: resolve_base_path_def jerry_get_object_native_pointer_def nat2 nat1)
  have P2: "?P = canonical_path example_env ?s JS_undefined w2"
    by (simp add: canonical_path_def base_directory_def base2 cwd_def example_env_def)
  have miss: "find (is_record_for w2 (global_object example_env) ?P) [] = None"
    by simp
  have rd: "\<not> (stat example_env (c_str ?P) = None \<or> stat example_env (c_str ?P) = Some S_IFDIR
      \<or> \<not> fopen example_env (c_str ?P) \<or> \<not> malloc_buffer_p example_env
      \<or> length (fread example_env (c_str ?P) (ftell example_env (c_str ?P)))
           \<noteq> ftell example_env (c_str ?P))"
    by (rule example_readable) simp
  have src: "''x=1'' = fread example_env (c_str ?P) (ftell example_env (c_str ?P))"
    unfolding cP by (simp add: example_env_def)
  have v: "JS_object 20 = parse example_env ''x=1'' (utf8_string ?s)"
    by (simp add: example_env_def)
  have good: "\<not> jerry_value_is_error (JS_object 20)" "malloc_module_p example_env"
    by (simp_all add: example_env_def)
  from resolve_parsed(3) [OF ok2 base2 example_allocs P2 miss rd src v refl refl good, of None]
  obtain w3 where
    run3: "jerry_port_module_resolve example_env ?s JS_undefined None w2
             = Some (Inr (JS_object 20, w3))"
    and tr3: "trace w3 = trace w2 @ [Ev_read_source (c_str ?P), Ev_parse ''x=1'' (utf8_string ?s)]"
    by blast
  have "trace w3 = [Ev_read_source ?P, Ev_parse ''x=1'' ''a.js'',
                    Ev_read_source ?P, Ev_parse ''x=1'' ''a.js'']"
    by (simp add: tr3 tr2 tr1)
  with run1 run2 hd2 run3 show ?thesis
    by (intro exI [of _ w1] exI [of _ w2] exI [of _ w3] conjI)
qed

subsection \<open>A cached module whose file is gone\<close>

text \<open>
  C4 as the specification states it, for every resolution whose canonical path does not
  exist, fails on a hit: the scan of the list comes before \<^verbatim>\<open>jerry_port_read_source\<close>, so
  once \<^verbatim>\<open>/a.js\<close> is loaded and then deleted, the resolution of \<^verbatim>\<open>a.js\<close> returns the
  cached module, not an error, and does not look at the file.
\<close>

theorem cached_module_returned_for_deleted_file:
  "returned_value (jerry_port_module_resolve example_env (JS_string ''a.js'') JS_undefined None
      initial_world) = Some (JS_object 20)
   \<and> canonical_path example_env_deleted (JS_string ''a.js'') JS_undefined
        (state_after initial_world
          (jerry_port_module_resolve example_env (JS_string ''a.js'') JS_undefined None
             initial_world)) = ''/a.js''
   \<and> stat example_env_deleted ''/a.js'' = None
   \<and> returned_value
        (jerry_port_module_resolve example_env_deleted (JS_string ''a.js'') JS_undefined None
          (state_after initial_world
            (jerry_port_module_resolve example_env (JS_string ''a.js'') JS_undefined None
               initial_world))) = Some (JS_object 20)
   \<and> trace (state_after
        (state_after initial_world
          (jerry_port_module_resolve example_env (JS_string ''a.js'') JS_undefined None
             initial_world))
        (jerry_port_module_resolve example_env_deleted (JS_string ''a.js'') JS_undefined None
          (state_after initial_world
            (jerry_port_module_resolve example_env (JS_string ''a.js'') JS_undefined None
               initial_world))))
      = [Ev_read_source ''/a.js'', Ev_parse ''x=1'' ''a.js'']"
proof -
  let ?P = "''/a.js''"
  let ?s = "JS_string ''a.js''"
  from example_loaded obtain w1 new r where
    run1: "jerry_port_module_resolve example_env ?s JS_undefined None initial_world
             = Some (Inr (JS_object 20, w1))"
    and ok1: "registry_ok w1 [new]"
    and r: "modules w1 new = Some r" "module r = JS_object 20"
    and rec1: "\<forall>C P. is_record_for w1 C P new \<longleftrightarrow> C = JS_object 1 \<and> strcmp ?P P"
    and nat1: "native w1 = [JS_object 20 \<mapsto> new]"
    and tr1: "trace w1 = [Ev_read_source ?P, Ev_parse ''x=1'' ''a.js'']"
    by blast
  have s1: "state_after initial_world
          (jerry_port_module_resolve example_env ?s JS_undefined None initial_world) = w1"
    by (simp add: run1 state_after_def)
  have base1: "resolve_base_path JS_undefined w1 = Inr (None, 0)"
    by (simp add: resolve_base_path_def jerry_get_object_native_pointer_def nat1)
  have P1: "canonical_path example_env_deleted ?s JS_undefined w1 = ?P"
    by (simp add: canonical_path_def base_directory_def base1 cwd_def example_env_deleted_def
          example_env_def)
  have gone: "stat example_env_deleted ?P = None" by (simp add: example_env_deleted_def)
  have found: "find (is_record_for w1 (global_object example_env_deleted)
                  (canonical_path example_env_deleted ?s JS_undefined w1)) [new] = Some new"
    unfolding P1 by (simp add: rec1 strcmp_def example_env_deleted_def example_env_def)
  from resolve_hit [OF ok1 base1 example_deleted_allocs found r(1), of None] r(2)
  obtain w2 where
    run2: "jerry_port_module_resolve example_env_deleted ?s JS_undefined None w1
             = Some (Inr (JS_object 20, w2))"
    and tr2: "trace w2 = trace w1"
    by auto
  have s2: "state_after w1
          (jerry_port_module_resolve example_env_deleted ?s JS_undefined None w1) = w2"
    by (simp add: run2 state_after_def)
  have a: "returned_value (jerry_port_module_resolve example_env ?s JS_undefined None
             initial_world) = Some (JS_object 20)"
    by (simp add: run1 returned_value_def)
  have b: "returned_value (jerry_port_module_resolve example_env_deleted ?s JS_undefined None w1)
             = Some (JS_object 20)"
    by (simp add: run2 returned_value_def)
  have c: "trace w2 = [Ev_read_source ?P, Ev_parse ''x=1'' ''a.js'']"
    by (simp add: tr2 tr1)
  from a P1 gone b c show ?thesis unfolding s1 s2 by (intro conjI)
qed

end
